theory Spec2Isabelle
  imports Complex_Main
begin

section \<open>Exact decimals (bignumber.js)\<close>

text \<open>
  The strategy computes every price, balance and depth with bignumber.js under its default
  configuration (\<open>DECIMAL_PLACES = 20\<close>, \<open>ROUNDING_MODE = ROUND_HALF_UP\<close>).
  A value is a finite decimal, \<open>Infinity\<close>, \<open>-Infinity\<close> or \<open>NaN\<close>. Finite values are
  carried as rationals: \<open>plus\<close>, \<open>minus\<close> and \<open>times\<close> are exact, \<open>dividedBy\<close> and
  \<open>toFixed\<close> round half away from zero at a given number of decimal places. The sign of
  a zero is not represented (a negative zero differs from zero only as a divisor).
\<close>

datatype BigNumber = Fin rat | PInf | NInf | NaN

definition round_half_up :: "nat \<Rightarrow> rat \<Rightarrow> rat" where
  "round_half_up dp q = sgn q * of_int \<lfloor>\<bar>q\<bar> * 10 ^ dp + 1 / 2\<rfloor> / 10 ^ dp"

definition DECIMAL_PLACES :: nat where
  "DECIMAL_PLACES = 20"

fun negated :: "BigNumber \<Rightarrow> BigNumber" where
  "negated (Fin a) = Fin (- a)"
| "negated PInf = NInf"
| "negated NInf = PInf"
| "negated NaN = NaN"

fun plus_bn :: "BigNumber \<Rightarrow> BigNumber \<Rightarrow> BigNumber" where
  "plus_bn NaN _ = NaN"
| "plus_bn _ NaN = NaN"
| "plus_bn (Fin a) (Fin b) = Fin (a + b)"
| "plus_bn PInf NInf = NaN"
| "plus_bn NInf PInf = NaN"
| "plus_bn PInf _ = PInf"
| "plus_bn NInf _ = NInf"
| "plus_bn (Fin a) y = y"

definition minus_bn :: "BigNumber \<Rightarrow> BigNumber \<Rightarrow> BigNumber" where
  "minus_bn x y = plus_bn x (negated y)"

fun signed_inf :: "bool \<Rightarrow> BigNumber" where
  "signed_inf True = PInf"
| "signed_inf False = NInf"

fun times_bn :: "BigNumber \<Rightarrow> BigNumber \<Rightarrow> BigNumber" where
  "times_bn NaN _ = NaN"
| "times_bn _ NaN = NaN"
| "times_bn (Fin a) (Fin b) = Fin (a * b)"
| "times_bn (Fin a) PInf = (if a = 0 then NaN else signed_inf (0 < a))"
| "times_bn (Fin a) NInf = (if a = 0 then NaN else signed_inf (a < 0))"
| "times_bn PInf (Fin b) = (if b = 0 then NaN else signed_inf (0 < b))"
| "times_bn NInf (Fin b) = (if b = 0 then NaN else signed_inf (b < 0))"
| "times_bn PInf PInf = PInf"
| "times_bn PInf NInf = NInf"
| "times_bn NInf PInf = NInf"
| "times_bn NInf NInf = PInf"

fun dividedBy :: "BigNumber \<Rightarrow> BigNumber \<Rightarrow> BigNumber" where
  "dividedBy NaN _ = NaN"
| "dividedBy _ NaN = NaN"
| "dividedBy (Fin a) (Fin b) =
     (if b = 0 then (if a = 0 then NaN else signed_inf (0 < a))
      else Fin (round_half_up DECIMAL_PLACES (a / b)))"
| "dividedBy (Fin a) _ = Fin 0"
| "dividedBy PInf (Fin b) = signed_inf (0 \<le> b)"
| "dividedBy NInf (Fin b) = signed_inf (b < 0)"
| "dividedBy _ _ = NaN"

text \<open>Comparisons: every comparison with \<open>NaN\<close> is false.\<close>

fun lt :: "BigNumber \<Rightarrow> BigNumber \<Rightarrow> bool" where
  "lt NaN _ = False"
| "lt _ NaN = False"
| "lt (Fin a) (Fin b) = (a < b)"
| "lt (Fin a) PInf = True"
| "lt NInf (Fin b) = True"
| "lt NInf PInf = True"
| "lt _ _ = False"

fun isEqualTo :: "BigNumber \<Rightarrow> BigNumber \<Rightarrow> bool" where
  "isEqualTo (Fin a) (Fin b) = (a = b)"
| "isEqualTo PInf PInf = True"
| "isEqualTo NInf NInf = True"
| "isEqualTo _ _ = False"

definition gt :: "BigNumber \<Rightarrow> BigNumber \<Rightarrow> bool" where
  "gt x y = lt y x"

definition lte :: "BigNumber \<Rightarrow> BigNumber \<Rightarrow> bool" where
  "lte x y = (lt x y \<or> isEqualTo x y)"

definition gte :: "BigNumber \<Rightarrow> BigNumber \<Rightarrow> bool" where
  "gte x y = (gt x y \<or> isEqualTo x y)"

text \<open>
  \<open>BigNumber.min\<close> and \<open>BigNumber.max\<close> scan their arguments from the left, keep the
  running extremum and return \<open>NaN\<close> as soon as an argument is \<open>NaN\<close>.
\<close>

fun maxOrMin :: "(BigNumber \<Rightarrow> BigNumber \<Rightarrow> bool) \<Rightarrow> BigNumber \<Rightarrow> BigNumber list \<Rightarrow> BigNumber" where
  "maxOrMin method m [] = m"
| "maxOrMin method m (n # ns) =
     (if n = NaN then NaN
      else if method m n then maxOrMin method n ns
      else maxOrMin method m ns)"

fun min_bn :: "BigNumber list \<Rightarrow> BigNumber" where
  "min_bn [] = PInf"
| "min_bn (a # as) = maxOrMin gt a as"

fun max_bn :: "BigNumber list \<Rightarrow> BigNumber" where
  "max_bn [] = NInf"
| "max_bn (a # as) = maxOrMin lt a as"

fun toFixed :: "nat \<Rightarrow> BigNumber \<Rightarrow> BigNumber" where
  "toFixed dp (Fin a) = Fin (round_half_up dp a)"
| "toFixed dp x = x"

text \<open>
  \<open>_.reduce(xs, (x, y) => x.plus(y), new BigNumber(0))\<close>: the left fold every depth and
  locked amount is computed with.
\<close>

definition sum_bn :: "BigNumber list \<Rightarrow> BigNumber" where
  "sum_bn xs = foldl plus_bn (Fin 0) xs"

section \<open>Data model\<close>

text \<open>
  An order as the exchange's query interface returns it. \<open>price\<close> and \<open>balance\<close> are
  the decimals that \<open>new BigNumber(x.price)\<close> and \<open>new BigNumber(x.balance)\<close> read;
  \<open>buytoken\<close> and \<open>selltoken\<close> are the two token addresses.
\<close>

record Order =
  contract :: string
  transaction :: string
  price :: BigNumber
  balance :: BigNumber
  buytoken :: string
  selltoken :: string

record OrderBook =
  buys :: "Order list"
  sells :: "Order list"

record MarketMakerConfig =
  fundMinimum :: BigNumber
  tokenLimit :: BigNumber
  spread :: BigNumber
  dustCutoff :: BigNumber
  bandSize :: BigNumber

text \<open>
  What the external collaborators answer during one cycle: the exchange's order book, the
  best order of each side (\<open>getTokenInfo\<close> followed by \<open>getOrderByTx\<close>), the orders of
  the bot's address, the wallet's balance in wei, and the token contract's
  \<open>balanceOf\<close> and \<open>decimals\<close>. Each query is taken to give the same answer every time
  it is asked within the cycle, and to succeed.
\<close>

record Saturn =
  orderbook :: OrderBook
  best_buy_order :: Order
  best_sell_order :: Order
  ordersForAddress :: "Order list"
  getBalance :: nat
  balanceOf :: nat
  decimals :: nat

text \<open>
  A \<open>MarketMaker\<close> as its constructor leaves it: \<open>blockchain\<close> in upper case and
  \<open>token\<close> in lower case.
\<close>

record MarketMaker =
  saturn :: Saturn
  blockchain :: string
  token :: string
  config :: MarketMakerConfig
  botAddress :: string

datatype buysell = buy | sell

text \<open>
  The three action interfaces of \<open>actiontypes.ts\<close>, told apart by their \<open>type\<close> tag.
  An amount or price is the decimal whose \<open>toFixed\<close> string the action carries.
\<close>

datatype ActionType =
    Trade string string string BigNumber
  | NewOrder string buysell BigNumber BigNumber
  | CancelOrder string string string

datatype error = Error string | TypeError | RangeError

definition EtherAddress :: string where
  "EtherAddress = ''0x0000000000000000000000000000000000000000''"

definition PRICEDECIMALS :: nat where
  "PRICEDECIMALS = 6"

section \<open>The market snapshot\<close>

definition etherBalance :: "Order \<Rightarrow> BigNumber" where
  "etherBalance order = times_bn (balance order) (price order)"

definition fetchOrdersFor :: "MarketMaker \<Rightarrow> OrderBook" where
  "fetchOrdersFor mm =
     (let allOrders = ordersForAddress (saturn mm) in
      \<lparr> buys = filter (\<lambda>x. buytoken x = token mm \<and> selltoken x = EtherAddress) allOrders,
        sells = filter (\<lambda>x. selltoken x = token mm \<and> buytoken x = EtherAddress) allOrders \<rparr>)"

definition bestSellOrder :: "MarketMaker \<Rightarrow> Order" where
  "bestSellOrder mm = best_sell_order (saturn mm)"

definition bestBuyOrder :: "MarketMaker \<Rightarrow> Order" where
  "bestBuyOrder mm = best_buy_order (saturn mm)"

definition bestSellPrice :: "MarketMaker \<Rightarrow> BigNumber" where
  "bestSellPrice mm = price (bestSellOrder mm)"

definition bestBuyPrice :: "MarketMaker \<Rightarrow> BigNumber" where
  "bestBuyPrice mm = price (bestBuyOrder mm)"

definition spread_market :: "MarketMaker \<Rightarrow> BigNumber" where
  "spread_market mm = minus_bn (bestSellPrice mm) (bestBuyPrice mm)"

definition sellDepth :: "MarketMaker \<Rightarrow> BigNumber" where
  "sellDepth mm = sum_bn (map etherBalance (sells (orderbook (saturn mm))))"

definition buyDepth :: "MarketMaker \<Rightarrow> BigNumber" where
  "buyDepth mm = sum_bn (map etherBalance (buys (orderbook (saturn mm))))"

definition weightedMidMarketPrice :: "MarketMaker \<Rightarrow> BigNumber" where
  "weightedMidMarketPrice mm =
     dividedBy
       (plus_bn (times_bn (bestSellPrice mm) (buyDepth mm))
                (times_bn (bestBuyPrice mm) (sellDepth mm)))
       (plus_bn (sellDepth mm) (buyDepth mm))"

text \<open>\<open>pow(n, p)\<close>: the loop multiplies \<open>out\<close> by \<open>n\<close>, \<open>p\<close> times.\<close>

fun pow :: "BigNumber \<Rightarrow> nat \<Rightarrow> BigNumber" where
  "pow n 0 = Fin 1"
| "pow n (Suc p) = times_bn (pow n p) n"

definition tokenDecimals :: "MarketMaker \<Rightarrow> nat" where
  "tokenDecimals mm = decimals (saturn mm)"

definition availableEther :: "MarketMaker \<Rightarrow> BigNumber" where
  "availableEther mm =
     (let myBalance = Fin (of_nat (getBalance (saturn mm)));
          weiMinimum = times_bn (pow (Fin 10) 18) (fundMinimum (config mm));
          ether = dividedBy (minus_bn myBalance weiMinimum) (pow (Fin 10) 18)
      in max_bn [Fin 0, ether])"

definition availableTokens :: "MarketMaker \<Rightarrow> BigNumber" where
  "availableTokens mm =
     (let tokenbalance = Fin (of_nat (balanceOf (saturn mm)));
          decimals = tokenDecimals mm
      in min_bn [dividedBy tokenbalance (pow (Fin 10) decimals), tokenLimit (config mm)])"

definition etherLockedForAddress :: "MarketMaker \<Rightarrow> BigNumber" where
  "etherLockedForAddress mm = sum_bn (map etherBalance (buys (fetchOrdersFor mm)))"

definition tokensLockedForAddress :: "MarketMaker \<Rightarrow> BigNumber" where
  "tokensLockedForAddress mm = sum_bn (map balance (sells (fetchOrdersFor mm)))"

section \<open>The decision engine\<close>

text \<open>
  The methods of \<open>MarketMaker\<close>, each awaited in sequence in the source. What is written
  to the console is not modelled; \<open>alreadyInMarket\<close> in \<open>newBuys\<close> only decides whether
  a message is logged. The method \<open>spread\<close> is named \<open>spread_market\<close> here, apart from
  the field \<open>spread\<close> of the configuration.
\<close>

definition newBuys :: "MarketMaker \<Rightarrow> ActionType list" where
  "newBuys mm =
     (let funds = availableEther mm in
      if lte funds (dustCutoff (config mm)) then []
      else
        let bbp = bestBuyPrice mm;
            optimalPrice = minus_bn (weightedMidMarketPrice mm)
                             (dividedBy (spread_market mm) (Fin 2))
        in if lte optimalPrice bbp then []
           else
             let tokenAmount = dividedBy funds optimalPrice;
                 decimals = tokenDecimals mm
             in [NewOrder (blockchain mm) buy
                   (toFixed decimals tokenAmount) (toFixed PRICEDECIMALS optimalPrice)])"

definition newSells :: "MarketMaker \<Rightarrow> ActionType list" where
  "newSells mm =
     (let alreadyInMarket = tokensLockedForAddress mm;
          funds = minus_bn (availableTokens mm) alreadyInMarket
      in if lte funds (Fin 0) then []
         else
           let bsp = bestSellPrice mm;
               optimalPrice = plus_bn (weightedMidMarketPrice mm)
                                (dividedBy (spread_market mm) (Fin 2))
           in if gte optimalPrice bsp then []
              else
                let decimals = tokenDecimals mm
                in [NewOrder (blockchain mm) sell
                      (toFixed decimals funds) (toFixed PRICEDECIMALS optimalPrice)])"

definition newOrders :: "MarketMaker \<Rightarrow> ActionType list" where
  "newOrders mm =
     (let spread = spread_market mm in
      if lte spread (MarketMakerConfig.spread (config mm)) then []
      else newBuys mm @ newSells mm)"

text \<open>
  \<open>pruneSells\<close> and \<open>pruneBuys\<close> return the \<open>(contract, order_tx)\<close> pairs to cancel:
  the dust orders first, then the orders outside the band. Each list is filtered from
  the whole of \<open>orders\<close>.
\<close>

definition pruneSells :: "MarketMaker \<Rightarrow> Order list \<Rightarrow> (string \<times> string) list" where
  "pruneSells mm orders =
     (let dust = map (\<lambda>x. (contract x, transaction x))
                   (filter (\<lambda>x. lte (times_bn (balance x) (price x)) (dustCutoff (config mm))) orders);
          cutoff = plus_bn (weightedMidMarketPrice mm)
                     (times_bn (bandSize (config mm)) (MarketMakerConfig.spread (config mm)));
          outsiders = map (\<lambda>x. (contract x, transaction x))
                        (filter (\<lambda>x. gt (price x) cutoff) orders)
      in dust @ outsiders)"

definition pruneBuys :: "MarketMaker \<Rightarrow> Order list \<Rightarrow> (string \<times> string) list" where
  "pruneBuys mm orders =
     (let dust = map (\<lambda>x. (contract x, transaction x))
                   (filter (\<lambda>x. lte (times_bn (balance x) (price x)) (dustCutoff (config mm))) orders);
          cutoff = minus_bn (weightedMidMarketPrice mm)
                     (times_bn (bandSize (config mm)) (MarketMakerConfig.spread (config mm)));
          outsiders = map (\<lambda>x. (contract x, transaction x))
                        (filter (\<lambda>x. lt (price x) cutoff) orders)
      in dust @ outsiders)"

definition cleanupOrders :: "MarketMaker \<Rightarrow> ActionType list" where
  "cleanupOrders mm =
     (let myorders = fetchOrdersFor mm;
          tocancel = [] @ pruneSells mm (sells myorders) @ pruneBuys mm (buys myorders)
      in map (\<lambda>x. CancelOrder (blockchain mm) (fst x) (snd x)) tocancel)"

definition checkArbOpportunity :: "MarketMaker \<Rightarrow> ActionType list" where
  "checkArbOpportunity mm =
     (let spread = spread_market mm in
      if lte spread (Fin 0) then
        let bbo = bestBuyOrder mm;
            bso = bestSellOrder mm;
            available = availableTokens mm
        in if isEqualTo available (Fin 0) then []
           else
             let tokenAmount = min_bn [balance bbo, balance bso, available]
             in [Trade (blockchain mm) (contract bbo) (transaction bbo) tokenAmount,
                 Trade (blockchain mm) (contract bso) (transaction bso) tokenAmount]
      else [])"

text \<open>
  The message of the error that \<open>ensureValidOrderBook\<close> throws (a plain \<open>Error\<close>), with
  the line breaks and indentation of the template collapsed to single spaces.
\<close>

definition thin_message :: "MarketMaker \<Rightarrow> string" where
  "thin_message mm =
     ''The order book for token '' @ blockchain mm @ ''::'' @ token mm @
     '' is too thin for this bot to properly work. Consider manually creating orders first. '' @
     ''The bot needs at least 2 buy and sell orders.''"

definition ensureValidOrderBook :: "MarketMaker \<Rightarrow> error + unit" where
  "ensureValidOrderBook mm =
     (let healthyCutoff = 2;
          ob = orderbook (saturn mm)
      in if length (buys ob) < healthyCutoff \<or> length (sells ob) < healthyCutoff
         then Inl (Error (thin_message mm))
         else Inr ())"

section \<open>The depth chart\<close>

text \<open>
  JavaScript numbers appear only in the renderer: \<open>x.toNumber()\<close> in the comparator of
  the two sorts and under every \<open>Math.round\<close> of \<open>plot\<close>, and the arithmetic on the
  rounded values. A number is an IEEE 754 double; it is carried in the type of the
  decimals, as the rational it denotes, \<open>Infinity\<close>, \<open>-Infinity\<close> or \<open>NaN\<close>.

  \<open>x.toNumber()\<close> is the double nearest to the decimal \<open>x\<close>, ties going to the even
  significand. For a magnitude \<open>a\<close>, \<open>exponent a\<close> is the binary exponent of its binade,
  from -1022 (the subnormals and the first normal binade) to 1023, found by stepping up
  from -1022 while the next power of two is not above \<open>a\<close>. The doubles of that binade
  are the multiples of \<open>ulp a\<close>, 52 binary places below it, and \<open>nearest_double a\<close> is
  the nearest of them. A result of \<open>2^1024\<close> or more is beyond the largest double and
  becomes an infinity; a magnitude below half the least subnormal becomes 0.
\<close>

definition round_half_even :: "rat \<Rightarrow> int" where
  "round_half_even x =
     (let f = \<lfloor>x\<rfloor>; d = x - of_int f
      in if d < 1 / 2 then f
         else if 1 / 2 < d then f + 1
         else if even f then f else f + 1)"

fun binade :: "nat \<Rightarrow> int \<Rightarrow> rat \<Rightarrow> int" where
  "binade 0 k a = k"
| "binade (Suc n) k a = (if 2 powi (k + 1) \<le> a then binade n (k + 1) a else k)"

definition exponent :: "rat \<Rightarrow> int" where
  "exponent a = binade 2045 (- 1022) a"

definition ulp :: "rat \<Rightarrow> rat" where
  "ulp a = 2 powi (exponent a - 52)"

definition nearest_double :: "rat \<Rightarrow> rat" where
  "nearest_double a = of_int (round_half_even (a / ulp a)) * ulp a"

fun toNumber :: "BigNumber \<Rightarrow> BigNumber" where
  "toNumber (Fin q) =
     (let r = nearest_double \<bar>q\<bar>
      in if 2 ^ 1024 \<le> r then signed_inf (0 < q) else Fin (sgn q * r))"
| "toNumber x = x"

text \<open>
  \<open>Math.round\<close> of a double is the nearest integer, a tie going up. The arithmetic that
  \<open>plot\<close> does on the rounded values (\<open>max2 - min2\<close>, \<open>rows + 1\<close>, \<open>rows - y0\<close>,
  \<open>y++\<close>) is written exactly: on doubles it is exact for integers below \<open>2^53\<close>, and
  an integer beyond that is outside every canvas whether or not it was rounded.
\<close>

fun Math_round :: "BigNumber \<Rightarrow> BigNumber" where
  "Math_round (Fin q) = Fin (of_int \<lfloor>q + 1 / 2\<rfloor>)"
| "Math_round x = x"

fun Math_abs :: "BigNumber \<Rightarrow> BigNumber" where
  "Math_abs (Fin q) = Fin \<bar>q\<bar>"
| "Math_abs NInf = PInf"
| "Math_abs x = x"

definition Math_min :: "BigNumber \<Rightarrow> BigNumber \<Rightarrow> BigNumber" where
  "Math_min x y = (if x = NaN \<or> y = NaN then NaN else if lt y x then y else x)"

definition Math_max :: "BigNumber \<Rightarrow> BigNumber \<Rightarrow> BigNumber" where
  "Math_max x y = (if x = NaN \<or> y = NaN then NaN else if lt x y then y else x)"

text \<open>
  \<open>xs[k]\<close> for a number \<open>k\<close>: the element when \<open>k\<close> is an integer within the
  array, \<open>undefined\<close> (here \<open>None\<close>) otherwise.
\<close>

fun array_index :: "BigNumber \<Rightarrow> nat \<Rightarrow> nat option" where
  "array_index (Fin q) n =
     (if of_int \<lfloor>q\<rfloor> = q \<and> 0 \<le> q \<and> q < of_nat n then Some (nat \<lfloor>q\<rfloor>) else None)"
| "array_index x n = None"

definition nth_opt :: "'a list \<Rightarrow> nat \<Rightarrow> 'a option" where
  "nth_opt xs i = (if i < length xs then Some (xs ! i) else None)"

text \<open>
  The values \<open>y\<close> takes in \<open>for (let y = a; y < b; y++)\<close>, for finite bounds. The
  renderer reaches such a loop only with finite bounds: the axis loop runs after the
  canvas was allocated, which throws unless \<open>min2\<close> and \<open>max2\<close> are finite, and the
  loops of the curves run after the canvas was indexed with both bounds, which throws
  unless they are finite.
\<close>

fun js_range :: "BigNumber \<Rightarrow> BigNumber \<Rightarrow> BigNumber list" where
  "js_range (Fin a) (Fin b) = map (\<lambda>k. Fin (a + of_nat k)) [0 ..< nat \<lceil>b - a\<rceil>]"
| "js_range x y = []"

definition then_e :: "error + 'a \<Rightarrow> ('a \<Rightarrow> error + 'b) \<Rightarrow> error + 'b" where
  "then_e m f = (case m of Inl e \<Rightarrow> Inl e | Inr x \<Rightarrow> f x)"

fun for_loop :: "'i list \<Rightarrow> ('i \<Rightarrow> 's \<Rightarrow> error + 's) \<Rightarrow> 's \<Rightarrow> error + 's" where
  "for_loop [] body s = Inr s"
| "for_loop (i # is) body s = then_e (body i s) (for_loop is body)"

record OrderBookChart =
  chart_buys :: "Order list"
  chart_sells :: "Order list"
  chart_buyDepth :: BigNumber
  chart_sellDepth :: BigNumber
  chart_truncated :: bool

text \<open>
  \<open>xs.sort((a, b) => a.price.minus(b.price).toNumber())\<close>: a stable sort by the number
  the comparator returns; \<open>a\<close> moves behind \<open>b\<close> only when that number is positive. Two
  prices whose difference is too small for a double compare as equal and keep their
  order. (Such a comparator need not be an order, and the language then leaves the
  arrangement to the engine; what is proved of the chart below uses only that the
  sorted array holds the same orders.)
\<close>

fun insert_by_price :: "Order \<Rightarrow> Order list \<Rightarrow> Order list" where
  "insert_by_price x [] = [x]"
| "insert_by_price x (y # ys) =
     (if gt (toNumber (minus_bn (price x) (price y))) (Fin 0) then y # insert_by_price x ys
      else x # y # ys)"

definition sort_by_price :: "Order list \<Rightarrow> Order list" where
  "sort_by_price xs = foldr insert_by_price xs []"

text \<open>
  The loop of \<open>filterSellOrders\<close> from index 2 on: the orders it pushes and whether it
  set \<open>truncated\<close>. The order that crosses the limit is pushed with its balance
  overwritten, and the loop breaks.
\<close>

fun filter_loop :: "BigNumber \<Rightarrow> BigNumber \<Rightarrow> Order list \<Rightarrow> Order list \<times> bool" where
  "filter_loop upperLimit currentLimit [] = ([], False)"
| "filter_loop upperLimit currentLimit (x # rest) =
     (let currentLimit = plus_bn currentLimit (etherBalance x) in
      if lte currentLimit upperLimit then
        (case filter_loop upperLimit currentLimit rest of (result, tr) \<Rightarrow> (x # result, tr))
      else ([x\<lparr>balance := dividedBy upperLimit (price x)\<rparr>], True))"

text \<open>
  \<open>filterSellOrders\<close> pushes \<open>orders[0]\<close> and \<open>orders[1]\<close> whether or not they exist:
  on a shorter array it pushes \<open>undefined\<close>.
\<close>

definition filterSellOrders :: "BigNumber \<Rightarrow> Order list \<Rightarrow> Order option list \<times> bool" where
  "filterSellOrders this_buyDepth orders =
     (let upperLimit = times_bn this_buyDepth (Fin (3 / 2));
          currentLimit = Fin 0
      in case filter_loop upperLimit currentLimit (drop 2 orders) of
           (result, tr) \<Rightarrow> ([nth_opt orders 0, nth_opt orders 1] @ map Some result, tr))"

text \<open>
  The constructor. The chart's \<open>buys\<close> are the book's sells, and its \<open>sells\<close> are the
  book's buys after the filter. \<open>sort\<close> moves every \<open>undefined\<close> to the end without
  comparing it, and reading the balance of \<open>undefined\<close> for the depth throws.
\<close>

definition new_OrderBookChart :: "Order list \<Rightarrow> Order list \<Rightarrow> error + OrderBookChart" where
  "new_OrderBookChart buys_in sells_in =
     (let this_buys = sort_by_price sells_in;
          this_buyDepth = sum_bn (map etherBalance this_buys)
      in case filterSellOrders this_buyDepth buys_in of
           (filtered, tr) \<Rightarrow>
             if None \<in> set filtered then Inl TypeError
             else
               let this_sells = sort_by_price (map the filtered);
                   this_sellDepth = sum_bn (map etherBalance this_sells)
               in Inr \<lparr> chart_buys = this_buys, chart_sells = this_sells,
                        chart_buyDepth = this_buyDepth, chart_sellDepth = this_sellDepth,
                        chart_truncated = tr \<rparr>)"

definition buyDepthAtIndex :: "OrderBookChart \<Rightarrow> nat \<Rightarrow> error + BigNumber" where
  "buyDepthAtIndex c idx =
     (if idx < length (chart_buys c)
      then Inr (foldl (\<lambda>result x. minus_bn result (etherBalance x))
                  (chart_buyDepth c) (take (idx + 1) (chart_buys c)))
      else Inl TypeError)"

definition sellDepthAtIndex :: "OrderBookChart \<Rightarrow> nat \<Rightarrow> error + BigNumber" where
  "sellDepthAtIndex c idx =
     (if idx < length (chart_sells c)
      then Inr (foldl (\<lambda>result x. plus_bn result (etherBalance x))
                  (Fin 0) (take (idx + 1) (chart_sells c)))
      else Inl TypeError)"

text \<open>
  The canvas is an array of rows of cells. A label's digits are formatted in double
  arithmetic; the model records which row the label belongs to. \<open>Hole\<close> is an array
  slot that was never written (it joins as the empty string). The glyphs are the
  box-drawing characters of the source, under their Unicode names: \<open>Tee\<close> is U+2524,
  \<open>Cross\<close> U+253C, \<open>Flat\<close> U+2500, \<open>ArcUpRight\<close> U+2570, \<open>ArcDownRight\<close> U+256D,
  \<open>ArcDownLeft\<close> U+256E, \<open>ArcUpLeft\<close> U+256F, \<open>Vert\<close> U+2502 and \<open>Arrow\<close> U+2191;
  the colour is the one \<open>chalk\<close> wraps the glyph in.
\<close>

datatype colour = green | red

datatype glyph = Tee | Cross | Flat | ArcUpRight | ArcDownRight | ArcDownLeft | ArcUpLeft
  | Vert | Arrow

datatype cell = Blank | Hole | Label BigNumber | Axis glyph | Glyph colour glyph

type_synonym canvas = "cell list list"

definition put_cell :: "cell list \<Rightarrow> nat \<Rightarrow> cell \<Rightarrow> cell list" where
  "put_cell row j v =
     (if j < length row then row[j := v]
      else row @ replicate (j - length row) Hole @ [v])"

text \<open>\<open>result[k][j] = v\<close>: a \<open>TypeError\<close> when \<open>result[k]\<close> is \<open>undefined\<close>.\<close>

definition set_cell :: "BigNumber \<Rightarrow> nat \<Rightarrow> cell \<Rightarrow> canvas \<Rightarrow> error + canvas" where
  "set_cell k j v result =
     (case array_index k (length result) of
        None \<Rightarrow> Inl TypeError
      | Some i \<Rightarrow> Inr (result[i := put_cell (result ! i) j v]))"

text \<open>
  \<open>new Array(rows + 1)\<close> throws a \<open>RangeError\<close> unless \<open>rows + 1\<close> is an integer
  from 0 to \<open>2^32 - 1\<close>; every row is then filled with \<open>width\<close> blanks.
\<close>

definition new_canvas :: "BigNumber \<Rightarrow> nat \<Rightarrow> canvas option" where
  "new_canvas rows width =
     (case plus_bn rows (Fin 1) of
        Fin n \<Rightarrow>
          (if of_int \<lfloor>n\<rfloor> = n \<and> 0 \<le> n \<and> n \<le> 2 ^ 32 - 1
           then Some (replicate (nat \<lfloor>n\<rfloor>) (replicate width Blank))
           else None)
      | _ \<Rightarrow> None)"

text \<open>\<open>Math.round(depth.times(ratio).toNumber()) - min2\<close>: the row of a depth.\<close>

definition scaled :: "BigNumber \<Rightarrow> BigNumber \<Rightarrow> BigNumber \<Rightarrow> BigNumber" where
  "scaled ratio min2 depth = minus_bn (Math_round (toNumber (times_bn depth ratio))) min2"

text \<open>
  One column of a curve between the scaled depths \<open>y0\<close> and \<open>y1\<close>: a flat glyph when
  they are equal, otherwise the two corners and the vertical run between them.
\<close>

definition draw_step :: "colour \<Rightarrow> BigNumber \<Rightarrow> nat \<Rightarrow> BigNumber \<Rightarrow> BigNumber \<Rightarrow> canvas \<Rightarrow> error + canvas" where
  "draw_step col rows j y0 y1 result =
     (if isEqualTo y0 y1 then set_cell (minus_bn rows y0) j (Glyph col Flat) result
      else
        then_e (set_cell (minus_bn rows y1) j
                  (Glyph col (if gt y0 y1 then ArcUpRight else ArcDownRight)) result) (\<lambda>result.
        then_e (set_cell (minus_bn rows y0) j
                  (Glyph col (if gt y0 y1 then ArcDownLeft else ArcUpLeft)) result) (\<lambda>result.
        let from = Math_min y0 y1;
            to = Math_max y0 y1
        in for_loop (js_range (plus_bn from (Fin 1)) to)
             (\<lambda>y. set_cell (minus_bn rows y) j (Glyph col Vert)) result)))"

definition draw_axis :: "BigNumber \<Rightarrow> BigNumber \<Rightarrow> nat \<Rightarrow> canvas \<Rightarrow> error + canvas" where
  "draw_axis min2 max2 offset result =
     for_loop (js_range min2 (plus_bn max2 (Fin 1)))
       (\<lambda>y result.
          then_e (set_cell (minus_bn y min2) 0 (Label (minus_bn y min2)) result)
                 (set_cell (minus_bn y min2) (offset - 1) (Axis Tee)))
       result"

definition draw_buys :: "OrderBookChart \<Rightarrow> BigNumber \<Rightarrow> BigNumber \<Rightarrow> BigNumber \<Rightarrow> nat \<Rightarrow> canvas \<Rightarrow> error + canvas" where
  "draw_buys c ratio min2 rows offset result =
     then_e (buyDepthAtIndex c 0) (\<lambda>d0.
     then_e (set_cell (minus_bn rows (scaled ratio min2 d0)) (offset - 1) (Glyph green Cross) result)
       (for_loop [0 ..< length (chart_buys c) - 1]
          (\<lambda>x result.
             then_e (buyDepthAtIndex c (x + 0)) (\<lambda>d0.
             then_e (buyDepthAtIndex c (x + 1)) (\<lambda>d1.
             draw_step green rows (x + offset) (scaled ratio min2 d0) (scaled ratio min2 d1) result)))))"

definition draw_first_sell :: "OrderBookChart \<Rightarrow> BigNumber \<Rightarrow> BigNumber \<Rightarrow> BigNumber \<Rightarrow> nat \<Rightarrow> canvas \<Rightarrow> error + canvas" where
  "draw_first_sell c ratio min2 rows offset result =
     then_e (sellDepthAtIndex c 0) (\<lambda>d0.
     then_e (sellDepthAtIndex c 1) (\<lambda>d1.
     let from = scaled ratio min2 d0;
         to = scaled ratio min2 d1;
         j = length (chart_buys c) + offset - 1
     in if \<not> isEqualTo to from then
          then_e (set_cell rows j (Glyph red ArcUpLeft) result) (\<lambda>result.
          then_e (set_cell (minus_bn rows to) j (Glyph red ArcDownRight) result)
            (for_loop (js_range (Fin 1) to)
               (\<lambda>y. set_cell (minus_bn rows y) j (Glyph red Vert))))
        else set_cell rows j (Glyph red Flat) result))"

definition draw_sells :: "OrderBookChart \<Rightarrow> BigNumber \<Rightarrow> BigNumber \<Rightarrow> BigNumber \<Rightarrow> nat \<Rightarrow> canvas \<Rightarrow> error + canvas" where
  "draw_sells c ratio min2 rows offset result =
     then_e (draw_first_sell c ratio min2 rows offset result)
       (for_loop [1 ..< length (chart_sells c) - 1]
          (\<lambda>x result.
             then_e (sellDepthAtIndex c (x + 0)) (\<lambda>d0.
             then_e (sellDepthAtIndex c (x + 1)) (\<lambda>d1.
             draw_step red rows (x + offset + length (chart_buys c) - 1)
               (scaled ratio min2 d0) (scaled ratio min2 d1) result))))"

text \<open>
  \<open>plot\<close> returns the canvas; the text block is its rows, each joined into a line, joined
  by newlines.
\<close>

definition plot :: "OrderBookChart \<Rightarrow> error + canvas" where
  "plot c =
     (let min_d = Fin 0;
          max_d = (if gt (chart_buyDepth c) (chart_sellDepth c)
                   then chart_buyDepth c else chart_sellDepth c);
          range = max_d;
          offset = 3;
          height = 8;
          ratio = dividedBy (Fin height) range;
          min2 = Math_round (toNumber (times_bn min_d ratio));
          max2 = Math_round (toNumber (times_bn max_d ratio));
          rows = Math_abs (minus_bn max2 min2);
          width = length (chart_buys c) + length (chart_sells c) + offset
      in case new_canvas rows width of
           None \<Rightarrow> Inl RangeError
         | Some result \<Rightarrow>
             then_e (draw_axis min2 max2 offset result) (\<lambda>result.
             then_e (draw_buys c ratio min2 rows offset result) (\<lambda>result.
             then_e (draw_sells c ratio min2 rows offset result) (\<lambda>result.
             if chart_truncated c then set_cell (Fin 0) width (Glyph red Arrow) result
             else Inr result))))"

text \<open>\<open>OrderBookPrinter.print\<close>: build the chart of the book and plot it.\<close>

definition print :: "OrderBook \<Rightarrow> error + canvas" where
  "print ob = then_e (new_OrderBookChart (buys ob) (sells ob)) plot"

definition plotOrderBook :: "MarketMaker \<Rightarrow> error + canvas" where
  "plotOrderBook mm = print (orderbook (saturn mm))"

definition printMarketHealth :: "MarketMaker \<Rightarrow> error + canvas" where
  "printMarketHealth mm = plotOrderBook mm"

definition getActions :: "MarketMaker \<Rightarrow> error + ActionType list" where
  "getActions mm =
     then_e (ensureValidOrderBook mm) (\<lambda>_.
     then_e (printMarketHealth mm) (\<lambda>_.
     let arbs = checkArbOpportunity mm in
     if length arbs \<noteq> 0 then Inr arbs
     else
       let cleanup = cleanupOrders mm in
       if length cleanup \<noteq> 0 then Inr cleanup
       else
         let newOrders = newOrders mm in
         if length newOrders \<noteq> 0 then Inr newOrders
         else Inr []))"

section \<open>Predicates the properties are stated with\<close>

text \<open>The \<open>type\<close> tag of an action.\<close>

fun isTrade :: "ActionType \<Rightarrow> bool" where
  "isTrade (Trade _ _ _ _) = True"
| "isTrade _ = False"

fun isCancelOrder :: "ActionType \<Rightarrow> bool" where
  "isCancelOrder (CancelOrder _ _ _) = True"
| "isCancelOrder _ = False"

fun isNewOrder :: "ActionType \<Rightarrow> bool" where
  "isNewOrder (NewOrder _ _ _ _) = True"
| "isNewOrder _ = False"

text \<open>
  An order of the spec's data model: a finite positive price and a finite balance that is
  not negative.
\<close>

definition wf_order :: "Order \<Rightarrow> bool" where
  "wf_order x =
     (case (price x, balance x) of (Fin p, Fin b) \<Rightarrow> 0 < p \<and> 0 \<le> b | _ \<Rightarrow> False)"

text \<open>The notional of an order, when it is finite.\<close>

definition notional :: "Order \<Rightarrow> rat" where
  "notional x = (case etherBalance x of Fin q \<Rightarrow> q | _ \<Rightarrow> 0)"

text \<open>
  A book the renderer can scale: every order is well formed, and a sell order or one of
  the first two buy orders has a positive balance, so that the plotted range is not zero.
\<close>

definition plottable :: "OrderBook \<Rightarrow> bool" where
  "plottable ob =
     ((\<forall>x \<in> set (buys ob @ sells ob). wf_order x) \<and>
      (\<exists>x \<in> set (sells ob @ take 2 (buys ob)). lt (Fin 0) (balance x)))"

text \<open>
  The two tests of \<open>pruneSells\<close> and \<open>pruneBuys\<close>, the exchange's name of an order, and
  the action that cancels it.
\<close>

definition is_dust :: "MarketMaker \<Rightarrow> Order \<Rightarrow> bool" where
  "is_dust mm x = lte (times_bn (balance x) (price x)) (dustCutoff (config mm))"

definition band :: "MarketMaker \<Rightarrow> BigNumber" where
  "band mm = times_bn (bandSize (config mm)) (MarketMakerConfig.spread (config mm))"

definition sell_outlier :: "MarketMaker \<Rightarrow> Order \<Rightarrow> bool" where
  "sell_outlier mm x = gt (price x) (plus_bn (weightedMidMarketPrice mm) (band mm))"

definition buy_outlier :: "MarketMaker \<Rightarrow> Order \<Rightarrow> bool" where
  "buy_outlier mm x = lt (price x) (minus_bn (weightedMidMarketPrice mm) (band mm))"

definition order_key :: "Order \<Rightarrow> string \<times> string" where
  "order_key x = (contract x, transaction x)"

definition cancel_of :: "MarketMaker \<Rightarrow> Order \<Rightarrow> ActionType" where
  "cancel_of mm x = CancelOrder (blockchain mm) (contract x) (transaction x)"

text \<open>
  The names of the orders \<open>cleanupOrders\<close> cancels, in its order: the dust and then the
  outsiders among the bot's sells, the dust and then the outsiders among its buys.
\<close>

definition cancel_keys :: "MarketMaker \<Rightarrow> (string \<times> string) list" where
  "cancel_keys mm =
     map order_key (filter (is_dust mm) (sells (fetchOrdersFor mm))) @
     map order_key (filter (sell_outlier mm) (sells (fetchOrdersFor mm))) @
     map order_key (filter (is_dust mm) (buys (fetchOrdersFor mm))) @
     map order_key (filter (buy_outlier mm) (buys (fetchOrdersFor mm)))"

text \<open>
  The local \<open>optimalPrice\<close> of \<open>newBuys\<close> and of \<open>newSells\<close>: the weighted mid minus,
  or plus, half of the market's spread.
\<close>

definition optimalBuyPrice :: "MarketMaker \<Rightarrow> BigNumber" where
  "optimalBuyPrice mm =
     minus_bn (weightedMidMarketPrice mm) (dividedBy (spread_market mm) (Fin 2))"

definition optimalSellPrice :: "MarketMaker \<Rightarrow> BigNumber" where
  "optimalSellPrice mm =
     plus_bn (weightedMidMarketPrice mm) (dividedBy (spread_market mm) (Fin 2))"

text \<open>
  The running cumulative notional of the outlier filter when it looks at \<open>orders[i]\<close>,
  accumulated from the third order (index 2) on, and the filter's cap.
\<close>

definition cumulative :: "Order list \<Rightarrow> nat \<Rightarrow> BigNumber" where
  "cumulative orders i = sum_bn (map etherBalance (take (i - 1) (drop 2 orders)))"

definition cap :: "BigNumber \<Rightarrow> BigNumber" where
  "cap depth = times_bn depth (Fin (3 / 2))"

text \<open>
  \<open>succeeds P m\<close>: the computation \<open>m\<close> does not throw, and its result satisfies \<open>P\<close>.
\<close>

definition succeeds :: "('a \<Rightarrow> bool) \<Rightarrow> error + 'a \<Rightarrow> bool" where
  "succeeds P m = (case m of Inl e \<Rightarrow> False | Inr x \<Rightarrow> P x)"

text \<open>
  What the constructor establishes on a plottable book with two buy orders and a sell
  order: the plotted orders are well formed, there is a plotted buy and there are two
  plotted sells, the depths are the sums over the plotted orders, and some plotted order
  has a positive notional.
\<close>

definition chart_ok :: "OrderBookChart \<Rightarrow> bool" where
  "chart_ok c =
     ((\<forall>x \<in> set (chart_buys c @ chart_sells c). wf_order x) \<and>
      1 \<le> length (chart_buys c) \<and> 2 \<le> length (chart_sells c) \<and>
      chart_buyDepth c = sum_bn (map etherBalance (chart_buys c)) \<and>
      chart_sellDepth c = sum_bn (map etherBalance (chart_sells c)) \<and>
      (\<exists>x \<in> set (chart_buys c @ chart_sells c). 0 < notional x))"

section \<open>Example books\<close>

definition EX_TOKEN :: string where
  "EX_TOKEN = ''0xt''"

definition buy_order :: "string \<Rightarrow> rat \<Rightarrow> rat \<Rightarrow> Order" where
  "buy_order tx p b =
     \<lparr> contract = ''0xc'', transaction = tx, price = Fin p, balance = Fin b,
       buytoken = EX_TOKEN, selltoken = EtherAddress \<rparr>"

definition sell_order :: "string \<Rightarrow> rat \<Rightarrow> rat \<Rightarrow> Order" where
  "sell_order tx p b =
     \<lparr> contract = ''0xc'', transaction = tx, price = Fin p, balance = Fin b,
       buytoken = EtherAddress, selltoken = EX_TOKEN \<rparr>"

definition example_bot ::
  "Order list \<Rightarrow> Order list \<Rightarrow> Order list \<Rightarrow> nat \<Rightarrow> nat \<Rightarrow> nat \<Rightarrow> MarketMakerConfig \<Rightarrow> MarketMaker" where
  "example_bot bs ss own wei tokens dec cfg =
     \<lparr> saturn = \<lparr> orderbook = \<lparr> buys = bs, sells = ss \<rparr>,
                  best_buy_order = hd bs, best_sell_order = hd ss,
                  ordersForAddress = own, getBalance = wei, balanceOf = tokens,
                  decimals = dec \<rparr>,
       blockchain = ''ETH'', token = EX_TOKEN, config = cfg, botAddress = ''0xb'' \<rparr>"

definition example_config :: "rat \<Rightarrow> rat \<Rightarrow> MarketMakerConfig" where
  "example_config limit sp =
     \<lparr> fundMinimum = Fin 0, tokenLimit = Fin limit, spread = Fin sp,
       dustCutoff = Fin 5, bandSize = Fin 2 \<rparr>"

text \<open>A crossed book: the best buy is at 2, the best sell at 1; the wallet holds \<open>tokens\<close>.\<close>

definition crossed_bot :: "nat \<Rightarrow> MarketMaker" where
  "crossed_bot tokens =
     example_bot [buy_order ''b1'' 2 4, buy_order ''b2'' 1 1]
       [sell_order ''s1'' 1 2, sell_order ''s2'' 3 1] [] 0 tokens 0 (example_config 3 (1 / 2))"

text \<open>
  A book with spread 1 and more depth on the buy side (6 against 4): the weighted mid is
  1.6. The wallet holds 10 ether and no tokens.
\<close>

definition buy_heavy_bot :: "rat \<Rightarrow> rat \<Rightarrow> MarketMaker" where
  "buy_heavy_bot limit sp =
     example_bot [buy_order ''b1'' 1 3, buy_order ''b2'' 1 3]
       [sell_order ''s1'' 2 1, sell_order ''s2'' 2 1] [] (10 * 10 ^ 18) 0 0 (example_config limit sp)"

text \<open>
  A book with spread 1 and more depth on the sell side (8 against 2): the weighted mid is
  1.2. The wallet holds one token of a token without decimals, and no ether.
\<close>

definition sell_heavy_bot :: "rat \<Rightarrow> Order list \<Rightarrow> MarketMaker" where
  "sell_heavy_bot limit own =
     example_bot [buy_order ''b1'' 1 1, buy_order ''b2'' 1 1]
       [sell_order ''s1'' 2 2, sell_order ''s2'' 2 2] own 0 1 0 (example_config limit (1 / 2))"

text \<open>A book of two orders on each side, all of them with balance 0.\<close>

definition empty_depth_bot :: MarketMaker where
  "empty_depth_bot =
     example_bot [buy_order ''b1'' 1 0, buy_order ''b2'' 1 0]
       [sell_order ''s1'' 2 0, sell_order ''s2'' 2 0] [] 0 0 0 (example_config 3 (1 / 2))"

section \<open>Facts about the decimals\<close>

lemma floor_numeral_div [simp]:
  "\<lfloor>numeral a / numeral b :: rat\<rfloor> = numeral a div numeral b"
  using floor_divide_of_int_eq [of "numeral a" "numeral b", where ?'a = rat] by simp

lemmas bn_defs = lte_def gt_def gte_def minus_bn_def sum_bn_def round_half_up_def
  DECIMAL_PLACES_def PRICEDECIMALS_def Let_def

lemmas snapshot_defs = etherBalance_def fetchOrdersFor_def bestSellOrder_def bestBuyOrder_def
  bestSellPrice_def bestBuyPrice_def spread_market_def sellDepth_def buyDepth_def
  weightedMidMarketPrice_def tokenDecimals_def availableEther_def availableTokens_def
  etherLockedForAddress_def tokensLockedForAddress_def

lemmas example_defs = EX_TOKEN_def EtherAddress_def buy_order_def sell_order_def
  example_bot_def example_config_def crossed_bot_def buy_heavy_bot_def sell_heavy_bot_def
  empty_depth_bot_def

lemma pow_10: "pow (Fin 10) n = Fin (10 ^ n)"
  by (induction n) simp_all

lemma lte_Fin [simp]: "lte (Fin a) (Fin b) = (a \<le> b)"
  by (auto simp: lte_def)

lemma gt_Fin [simp]: "gt (Fin a) (Fin b) = (b < a)"
  by (simp add: gt_def)

lemma gte_Fin [simp]: "gte (Fin a) (Fin b) = (b \<le> a)"
  by (auto simp: gte_def gt_def)

lemma gt_not_isEqualTo: "gt x y \<Longrightarrow> \<not> isEqualTo x y"
  by (cases x; cases y) (auto simp: gt_def)

lemma not_lte_gt: "x \<noteq> NaN \<Longrightarrow> y \<noteq> NaN \<Longrightarrow> \<not> lte x y \<Longrightarrow> gt x y"
  by (cases x; cases y) (auto simp: lte_def gt_def)

lemma not_gte_lt: "x \<noteq> NaN \<Longrightarrow> y \<noteq> NaN \<Longrightarrow> \<not> gte x y \<Longrightarrow> lt x y"
  by (cases x; cases y) (auto simp: gte_def gt_def)

lemma lte_refl: "x \<noteq> NaN \<Longrightarrow> lte x x"
  by (cases x) (auto simp: lte_def)

lemma lte_trans: "lte x y \<Longrightarrow> lte y z \<Longrightarrow> lte x z"
  by (cases x; cases y; cases z) (auto simp: lte_def)

text \<open>On finite values \<open>BigNumber.min\<close> is the least of its arguments.\<close>

lemma min_bn_three_Fin: "min_bn [Fin a, Fin b, Fin c] = Fin (min a (min b c))"
  by (auto simp: min_def)

text \<open>Rounding half away from zero is monotone.\<close>

lemma round_half_up_mono:
  assumes "a \<le> b"
  shows "round_half_up dp a \<le> round_half_up dp b"
proof -
  let ?k = "10 ^ dp :: rat"
  let ?f = "\<lambda>q. sgn q * of_int \<lfloor>\<bar>q\<bar> * ?k + 1 / 2\<rfloor> :: rat"
  have k: "0 < ?k" by simp
  have nonneg: "(0::rat) \<le> of_int \<lfloor>\<bar>q\<bar> * ?k + 1 / 2\<rfloor>" for q :: rat
    by (simp add: add_nonneg_nonneg)
  have "?f a \<le> ?f b"
  proof -
    consider "0 < a" | "a \<le> 0" "0 \<le> b" | "b < 0" by linarith
    then show ?thesis
    proof cases
      case 1
      with assms have "0 < b" by simp
      have "\<bar>a\<bar> * ?k + 1 / 2 \<le> \<bar>b\<bar> * ?k + 1 / 2"
        using 1 assms by (simp add: mult_right_mono)
      then have "\<lfloor>\<bar>a\<bar> * ?k + 1 / 2\<rfloor> \<le> \<lfloor>\<bar>b\<bar> * ?k + 1 / 2\<rfloor>"
        by (rule floor_mono)
      then show ?thesis using 1 \<open>0 < b\<close> by simp
    next
      case 2
      have "?f a \<le> 0"
        using 2 nonneg [of a] by (cases "a = 0") (simp_all add: sgn_if)
      moreover have "0 \<le> ?f b"
        using 2 nonneg [of b] by (cases "b = 0") (simp_all add: sgn_if)
      ultimately show ?thesis by simp
    next
      case 3
      with assms have "a < 0" by simp
      have "\<bar>b\<bar> * ?k + 1 / 2 \<le> \<bar>a\<bar> * ?k + 1 / 2"
        using 3 assms by (simp add: mult_right_mono)
      then have "\<lfloor>\<bar>b\<bar> * ?k + 1 / 2\<rfloor> \<le> \<lfloor>\<bar>a\<bar> * ?k + 1 / 2\<rfloor>"
        by (rule floor_mono)
      then show ?thesis using 3 \<open>a < 0\<close> by simp
    qed
  qed
  then show ?thesis
    unfolding round_half_up_def using k by (simp add: divide_right_mono)
qed

lemma toFixed_mono: "lte x y \<Longrightarrow> lte (toFixed dp x) (toFixed dp y)"
  by (cases x; cases y) (auto simp: lte_def round_half_up_mono order_le_less [symmetric])

section \<open>The decision engine: what one cycle returns\<close>

lemma checkArbOpportunity_kinds: "list_all isTrade (checkArbOpportunity mm)"
  by (simp add: checkArbOpportunity_def Let_def)

lemma cleanupOrders_kinds: "list_all isCancelOrder (cleanupOrders mm)"
  by (auto simp: cleanupOrders_def Let_def list_all_iff)

lemma isTrade_not_isNewOrder: "isTrade a \<Longrightarrow> \<not> isNewOrder a"
  by (cases a) simp_all

lemma isCancelOrder_not_isNewOrder: "isCancelOrder a \<Longrightarrow> \<not> isNewOrder a"
  by (cases a) simp_all

lemma newOrders_kinds: "list_all isNewOrder (newOrders mm)"
  by (simp add: newOrders_def newBuys_def newSells_def Let_def)

text \<open>
  Claim C2. When the spread (best sell price minus best buy price) is at most 0, the
  arbitrage check returns exactly two trades if the available base tokens are more than 0:
  one against the best buy order and one against the best sell order, both for the
  minimum of the two orders' balances and the available tokens. It returns no action if
  the available tokens are 0.
\<close>

theorem checkArbOpportunity_crossed:
  assumes "lte (spread_market mm) (Fin 0)"
  shows "(gt (availableTokens mm) (Fin 0) \<longrightarrow>
            checkArbOpportunity mm =
              [Trade (blockchain mm) (contract (bestBuyOrder mm)) (transaction (bestBuyOrder mm))
                 (min_bn [balance (bestBuyOrder mm), balance (bestSellOrder mm),
                          availableTokens mm]),
               Trade (blockchain mm) (contract (bestSellOrder mm)) (transaction (bestSellOrder mm))
                 (min_bn [balance (bestBuyOrder mm), balance (bestSellOrder mm),
                          availableTokens mm])])
       \<and> (isEqualTo (availableTokens mm) (Fin 0) \<longrightarrow> checkArbOpportunity mm = [])"
  using assms by (simp add: checkArbOpportunity_def Let_def gt_not_isEqualTo)

theorem checkArbOpportunity_crossed_witness:
  "lte (spread_market (crossed_bot 5)) (Fin 0) \<and>
   gt (availableTokens (crossed_bot 5)) (Fin 0) \<and>
   checkArbOpportunity (crossed_bot 5) =
     [Trade ''ETH'' ''0xc'' ''b1'' (Fin 2), Trade ''ETH'' ''0xc'' ''s1'' (Fin 2)] \<and>
   lte (spread_market (crossed_bot 0)) (Fin 0) \<and>
   isEqualTo (availableTokens (crossed_bot 0)) (Fin 0) \<and>
   checkArbOpportunity (crossed_bot 0) = []"
proof -
  have s5: "lte (spread_market (crossed_bot 5)) (Fin 0)"
    by (simp add: snapshot_defs example_defs minus_bn_def)
  have a5: "availableTokens (crossed_bot 5) = Fin 3"
    by (simp add: snapshot_defs example_defs bn_defs)
  have s0: "lte (spread_market (crossed_bot 0)) (Fin 0)"
    by (simp add: snapshot_defs example_defs minus_bn_def)
  have a0: "availableTokens (crossed_bot 0) = Fin 0"
    by (simp add: snapshot_defs example_defs bn_defs)
  have orders: "bestBuyOrder (crossed_bot 5) = buy_order ''b1'' 2 4"
    "bestSellOrder (crossed_bot 5) = sell_order ''s1'' 1 2"
    "blockchain (crossed_bot 5) = ''ETH''"
    by (simp_all add: snapshot_defs crossed_bot_def example_bot_def)
  have "checkArbOpportunity (crossed_bot 5) =
      [Trade ''ETH'' ''0xc'' ''b1'' (Fin 2), Trade ''ETH'' ''0xc'' ''s1'' (Fin 2)]"
    using checkArbOpportunity_crossed [OF s5]
    by (simp add: a5 orders buy_order_def sell_order_def gt_def)
  moreover have "checkArbOpportunity (crossed_bot 0) = []"
    using checkArbOpportunity_crossed [OF s0] by (simp add: a0)
  ultimately show ?thesis
    using s5 s0 by (simp add: a5 a0)
qed

text \<open>
  Claim C6. If the market spread is less than or equal to the configured spread, the
  new-quote step produces no action, and the cycle returns no \<open>NewOrder\<close>.
\<close>

theorem newOrders_tight_spread:
  assumes "lte (spread_market mm) (MarketMakerConfig.spread (config mm))"
  shows "newOrders mm = [] \<and>
         (\<forall>acts. getActions mm = Inr acts \<longrightarrow> \<not> list_ex isNewOrder acts)"
proof
  show empty: "newOrders mm = []"
    using assms by (simp add: newOrders_def)
  show "\<forall>acts. getActions mm = Inr acts \<longrightarrow> \<not> list_ex isNewOrder acts"
  proof (intro allI impI)
    fix acts
    assume run: "getActions mm = Inr acts"
    have t: "\<not> list_ex isNewOrder (checkArbOpportunity mm)"
      using checkArbOpportunity_kinds [of mm]
      by (auto simp: list_all_iff list_ex_iff dest: isTrade_not_isNewOrder)
    have c: "\<not> list_ex isNewOrder (cleanupOrders mm)"
      using cleanupOrders_kinds [of mm]
      by (auto simp: list_all_iff list_ex_iff dest: isCancelOrder_not_isNewOrder)
    from run have "acts = checkArbOpportunity mm \<or> acts = cleanupOrders mm \<or> acts = []"
      by (auto simp: getActions_def then_e_def Let_def empty split: sum.splits if_splits)
    with t c show "\<not> list_ex isNewOrder acts" by auto
  qed
qed

theorem newOrders_tight_spread_witness:
  "lte (spread_market (buy_heavy_bot 100 1)) (MarketMakerConfig.spread (config (buy_heavy_bot 100 1))) \<and>
   newOrders (buy_heavy_bot 100 1) = []"
proof -
  have h: "lte (spread_market (buy_heavy_bot 100 1))
             (MarketMakerConfig.spread (config (buy_heavy_bot 100 1)))"
    by (simp add: snapshot_defs example_defs minus_bn_def)
  from newOrders_tight_spread [OF h] h show ?thesis by simp
qed

text \<open>
  Claim C7. If either side of the order book has fewer than 2 orders, the health guard
  fails, and so does the whole cycle, with an error whose message tells the operator to
  create orders by hand; no action is produced. If both sides have at least 2 orders the
  guard passes.
\<close>

theorem thin_book_guard:
  "(length (buys (orderbook (saturn mm))) < 2 \<or> length (sells (orderbook (saturn mm))) < 2 \<longrightarrow>
      ensureValidOrderBook mm = Inl (Error (thin_message mm)) \<and>
      getActions mm = Inl (Error (thin_message mm)))
   \<and> (2 \<le> length (buys (orderbook (saturn mm))) \<and>
       2 \<le> length (sells (orderbook (saturn mm))) \<longrightarrow>
      ensureValidOrderBook mm = Inr ())
   \<and> (\<exists>pre post. thin_message mm = pre @ ''Consider manually creating orders first.'' @ post)"
proof (intro conjI impI)
  assume "length (buys (orderbook (saturn mm))) < 2 \<or> length (sells (orderbook (saturn mm))) < 2"
  then show g: "ensureValidOrderBook mm = Inl (Error (thin_message mm))"
    by (auto simp: ensureValidOrderBook_def Let_def)
  then show "getActions mm = Inl (Error (thin_message mm))"
    by (simp add: getActions_def then_e_def)
next
  assume "2 \<le> length (buys (orderbook (saturn mm))) \<and>
          2 \<le> length (sells (orderbook (saturn mm)))"
  then show "ensureValidOrderBook mm = Inr ()"
    by (auto simp: ensureValidOrderBook_def Let_def)
next
  have "thin_message mm =
      (''The order book for token '' @ blockchain mm @ ''::'' @ token mm @
       '' is too thin for this bot to properly work. '') @
      ''Consider manually creating orders first.'' @
      '' The bot needs at least 2 buy and sell orders.''"
    by (simp add: thin_message_def)
  then show "\<exists>pre post. thin_message mm = pre @ ''Consider manually creating orders first.'' @ post"
    by blast
qed

theorem thin_book_guard_witness:
  "length (sells (orderbook (saturn (example_bot [buy_order ''b1'' 1 1, buy_order ''b2'' 1 1]
      [sell_order ''s1'' 2 1] [] 0 0 0 (example_config 3 1))))) < 2 \<and>
   getActions (example_bot [buy_order ''b1'' 1 1, buy_order ''b2'' 1 1]
      [sell_order ''s1'' 2 1] [] 0 0 0 (example_config 3 1)) =
     Inl (Error (thin_message (example_bot [buy_order ''b1'' 1 1, buy_order ''b2'' 1 1]
      [sell_order ''s1'' 2 1] [] 0 0 0 (example_config 3 1)))) \<and>
   2 \<le> length (buys (orderbook (saturn (buy_heavy_bot 100 1)))) \<and>
   2 \<le> length (sells (orderbook (saturn (buy_heavy_bot 100 1)))) \<and>
   ensureValidOrderBook (buy_heavy_bot 100 1) = Inr ()"
  using thin_book_guard [of "example_bot [buy_order ''b1'' 1 1, buy_order ''b2'' 1 1]
      [sell_order ''s1'' 2 1] [] 0 0 0 (example_config 3 1)"]
    thin_book_guard [of "buy_heavy_bot 100 1"]
  by (simp add: example_bot_def buy_heavy_bot_def)

section \<open>Cleanup\<close>

lemma count_key_filter_member:
  assumes "distinct (map order_key xs)" and "x \<in> set xs"
  shows "count_list (map order_key (filter P xs)) (order_key x) = of_bool (P x)"
  using assms
proof (induction xs)
  case Nil
  then show ?case by simp
next
  case (Cons y ys)
  show ?case
  proof (cases "x = y")
    case True
    have "order_key y \<notin> set (map order_key (filter P ys))"
      using Cons.prems(1) by auto
    then have "count_list (map order_key (filter P ys)) (order_key y) = 0"
      by (simp only: count_list_0_iff not_False_eq_True)
    with True show ?thesis by simp
  next
    case False
    with Cons.prems have mem: "x \<in> set ys" by simp
    from Cons.prems(1) have "order_key y \<notin> order_key ` set ys" by simp
    with mem have "order_key x \<noteq> order_key y" by (metis imageI)
    moreover from Cons.prems(1) have "distinct (map order_key ys)" by simp
    ultimately show ?thesis using Cons.IH [OF _ mem] by simp
  qed
qed

lemma count_key_filter_absent:
  assumes "k \<notin> order_key ` set xs"
  shows "count_list (map order_key (filter P xs)) k = 0"
proof -
  from assms have "k \<notin> set (map order_key (filter P xs))" by auto
  then show ?thesis by (simp only: count_list_0_iff not_False_eq_True)
qed

lemma cleanupOrders_unfold:
  "cleanupOrders mm = map (\<lambda>k. CancelOrder (blockchain mm) (fst k) (snd k)) (cancel_keys mm)"
proof -
  have eqs: "(\<lambda>x. lte (times_bn (balance x) (price x)) (dustCutoff (config mm))) = is_dust mm"
    "(\<lambda>x. gt (price x) (plus_bn (weightedMidMarketPrice mm)
        (times_bn (bandSize (config mm)) (MarketMakerConfig.spread (config mm))))) = sell_outlier mm"
    "(\<lambda>x. lt (price x) (minus_bn (weightedMidMarketPrice mm)
        (times_bn (bandSize (config mm)) (MarketMakerConfig.spread (config mm))))) = buy_outlier mm"
    "(\<lambda>x. (contract x, transaction x)) = order_key"
    by (simp_all add: fun_eq_iff is_dust_def sell_outlier_def buy_outlier_def band_def order_key_def)
  show ?thesis
    unfolding cleanupOrders_def pruneSells_def pruneBuys_def Let_def eqs cancel_keys_def
    by simp
qed

lemma inj_cancel: "inj (\<lambda>k. CancelOrder b (fst k) (snd k))"
  by (auto simp: inj_def prod_eq_iff)

lemma count_cancel_of:
  "count_list (cleanupOrders mm) (cancel_of mm x) = count_list (cancel_keys mm) (order_key x)"
proof -
  have "cancel_of mm x = (\<lambda>k. CancelOrder (blockchain mm) (fst k) (snd k)) (order_key x)"
    by (simp add: cancel_of_def order_key_def)
  then show ?thesis
    unfolding cleanupOrders_unfold by (simp only: count_list_map_conv [OF inj_cancel])
qed

lemma sell_heavy_mid: "weightedMidMarketPrice (sell_heavy_bot limit own) = Fin (6 / 5)"
  by (simp add: snapshot_defs example_defs bn_defs)

text \<open>
  Claim C3, as stated: cleanup produces exactly one \<open>CancelOrder\<close> per own order that is
  dust or outside the band, the two sets being disjoint. It fails on an own sell order
  that is both: a sell of 1 token at price 3 (notional 3, under the dust cutoff 5), while
  the band ends at 1.2 + 2 \<times> 0.5 = 2.2, is cancelled twice.
\<close>

theorem cleanupOrders_twice_counterexample:
  "sells (fetchOrdersFor (sell_heavy_bot 3 [sell_order ''o1'' 3 1])) = [sell_order ''o1'' 3 1] \<and>
   is_dust (sell_heavy_bot 3 [sell_order ''o1'' 3 1]) (sell_order ''o1'' 3 1) \<and>
   sell_outlier (sell_heavy_bot 3 [sell_order ''o1'' 3 1]) (sell_order ''o1'' 3 1) \<and>
   cleanupOrders (sell_heavy_bot 3 [sell_order ''o1'' 3 1]) =
     [CancelOrder ''ETH'' ''0xc'' ''o1'', CancelOrder ''ETH'' ''0xc'' ''o1'']"
proof -
  let ?bot = "sell_heavy_bot 3 [sell_order ''o1'' 3 1]"
  have own: "sells (fetchOrdersFor ?bot) = [sell_order ''o1'' 3 1]"
    "buys (fetchOrdersFor ?bot) = []"
    by (simp_all add: fetchOrdersFor_def example_defs)
  have dust: "is_dust ?bot (sell_order ''o1'' 3 1)"
    by (simp add: is_dust_def example_defs)
  have out: "sell_outlier ?bot (sell_order ''o1'' 3 1)"
    unfolding sell_outlier_def sell_heavy_mid
    by (simp add: band_def example_defs)
  have "cleanupOrders ?bot = [CancelOrder ''ETH'' ''0xc'' ''o1'', CancelOrder ''ETH'' ''0xc'' ''o1'']"
    unfolding cleanupOrders_unfold cancel_keys_def own
    using dust out by (simp add: order_key_def example_defs)
  with own dust out show ?thesis by simp
qed

text \<open>
  Claim C3, amended. When the bot's own orders have distinct names (contract and
  transaction), cleanup produces, for each own order, one \<open>CancelOrder\<close> if it is dust
  (balance times price at most the dust cutoff, whatever its price) and one more if it is
  outside the band (a sell priced above the weighted mid plus \<open>bandSize\<close> times the
  configured spread, a buy priced below the weighted mid minus it): the two tests are
  applied to all own orders independently, so an order that passes both is cancelled
  twice. An own order inside the band with a notional above the dust cutoff is never
  cancelled, and every cancellation is of a dust or outside order.
\<close>

theorem cleanupOrders_counts:
  assumes "distinct (map order_key (sells (fetchOrdersFor mm) @ buys (fetchOrdersFor mm)))"
  shows "(\<forall>x \<in> set (sells (fetchOrdersFor mm)).
            count_list (cleanupOrders mm) (cancel_of mm x) =
              of_bool (is_dust mm x) + of_bool (sell_outlier mm x))
       \<and> (\<forall>x \<in> set (buys (fetchOrdersFor mm)).
            count_list (cleanupOrders mm) (cancel_of mm x) =
              of_bool (is_dust mm x) + of_bool (buy_outlier mm x))
       \<and> (\<forall>a \<in> set (cleanupOrders mm).
            (\<exists>x \<in> set (sells (fetchOrdersFor mm)).
               a = cancel_of mm x \<and> (is_dust mm x \<or> sell_outlier mm x)) \<or>
            (\<exists>x \<in> set (buys (fetchOrdersFor mm)).
               a = cancel_of mm x \<and> (is_dust mm x \<or> buy_outlier mm x)))"
proof (intro conjI ballI)
  let ?S = "sells (fetchOrdersFor mm)" and ?B = "buys (fetchOrdersFor mm)"
  from assms have dS: "distinct (map order_key ?S)" and dB: "distinct (map order_key ?B)"
    and disj: "order_key ` set ?S \<inter> order_key ` set ?B = {}"
    by auto
  {
    fix x assume x: "x \<in> set ?S"
    with disj have out: "order_key x \<notin> order_key ` set ?B" by auto
    show "count_list (cleanupOrders mm) (cancel_of mm x) =
            of_bool (is_dust mm x) + of_bool (sell_outlier mm x)"
      unfolding count_cancel_of cancel_keys_def
      by (simp add: count_key_filter_member [OF dS x] count_key_filter_absent [OF out])
  }
  {
    fix x assume x: "x \<in> set ?B"
    with disj have out: "order_key x \<notin> order_key ` set ?S" by auto
    show "count_list (cleanupOrders mm) (cancel_of mm x) =
            of_bool (is_dust mm x) + of_bool (buy_outlier mm x)"
      unfolding count_cancel_of cancel_keys_def
      by (simp add: count_key_filter_member [OF dB x] count_key_filter_absent [OF out])
  }
  {
    fix a assume "a \<in> set (cleanupOrders mm)"
    then show "(\<exists>x \<in> set ?S. a = cancel_of mm x \<and> (is_dust mm x \<or> sell_outlier mm x)) \<or>
            (\<exists>x \<in> set ?B. a = cancel_of mm x \<and> (is_dust mm x \<or> buy_outlier mm x))"
      unfolding cleanupOrders_unfold cancel_keys_def
      by (auto simp: cancel_of_def order_key_def)
  }
qed

text \<open>
  The bot holds a sell of 1 token at price 2 (dust, inside the band) and a buy of 10
  tokens at price 1.1 (notional 11, inside the band): the first is cancelled once, the
  second is not cancelled.
\<close>

theorem cleanupOrders_counts_witness:
  "distinct (map order_key
      (sells (fetchOrdersFor (sell_heavy_bot 3 [sell_order ''o1'' 2 1, buy_order ''o2'' (11 / 10) 10])) @
       buys (fetchOrdersFor (sell_heavy_bot 3 [sell_order ''o1'' 2 1, buy_order ''o2'' (11 / 10) 10])))) \<and>
   count_list (cleanupOrders (sell_heavy_bot 3 [sell_order ''o1'' 2 1, buy_order ''o2'' (11 / 10) 10]))
     (CancelOrder ''ETH'' ''0xc'' ''o1'') = 1 \<and>
   count_list (cleanupOrders (sell_heavy_bot 3 [sell_order ''o1'' 2 1, buy_order ''o2'' (11 / 10) 10]))
     (CancelOrder ''ETH'' ''0xc'' ''o2'') = 0"
proof -
  let ?bot = "sell_heavy_bot 3 [sell_order ''o1'' 2 1, buy_order ''o2'' (11 / 10) 10]"
  have own: "sells (fetchOrdersFor ?bot) = [sell_order ''o1'' 2 1]"
    "buys (fetchOrdersFor ?bot) = [buy_order ''o2'' (11 / 10) 10]"
    by (simp_all add: fetchOrdersFor_def example_defs)
  have d: "distinct (map order_key (sells (fetchOrdersFor ?bot) @ buys (fetchOrdersFor ?bot)))"
    unfolding own by (simp add: order_key_def example_defs)
  have s: "is_dust ?bot (sell_order ''o1'' 2 1)" "\<not> sell_outlier ?bot (sell_order ''o1'' 2 1)"
    unfolding sell_outlier_def sell_heavy_mid
    by (simp_all add: is_dust_def band_def example_defs)
  have b: "\<not> is_dust ?bot (buy_order ''o2'' (11 / 10) 10)"
    "\<not> buy_outlier ?bot (buy_order ''o2'' (11 / 10) 10)"
    unfolding buy_outlier_def sell_heavy_mid
    by (simp_all add: is_dust_def band_def minus_bn_def example_defs)
  have c: "cancel_of ?bot (sell_order ''o1'' 2 1) = CancelOrder ''ETH'' ''0xc'' ''o1''"
    "cancel_of ?bot (buy_order ''o2'' (11 / 10) 10) = CancelOrder ''ETH'' ''0xc'' ''o2''"
    by (simp_all add: cancel_of_def example_defs)
  from cleanupOrders_counts [OF d] have
    "count_list (cleanupOrders ?bot) (cancel_of ?bot (sell_order ''o1'' 2 1)) =
       of_bool (is_dust ?bot (sell_order ''o1'' 2 1)) +
       of_bool (sell_outlier ?bot (sell_order ''o1'' 2 1))"
    "count_list (cleanupOrders ?bot) (cancel_of ?bot (buy_order ''o2'' (11 / 10) 10)) =
       of_bool (is_dust ?bot (buy_order ''o2'' (11 / 10) 10)) +
       of_bool (buy_outlier ?bot (buy_order ''o2'' (11 / 10) 10))"
    unfolding own by simp_all
  with s b c d show ?thesis by simp
qed

section \<open>More facts about the comparisons\<close>

lemma gte_lte: "gte x y = lte y x"
  by (cases x; cases y) (auto simp: gte_def lte_def gt_def)

lemma gt_lte: "gt x y \<Longrightarrow> lte y x"
  by (simp add: gt_def lte_def)

lemma lt_lte: "lt x y \<Longrightarrow> lte x y"
  by (simp add: lte_def)

section \<open>Well-formed orders and finite depths\<close>

lemma wf_orderD:
  assumes "wf_order x"
  obtains p b where "price x = Fin p" "balance x = Fin b" "0 < p" "0 \<le> b"
  using assms by (auto simp: wf_order_def split: BigNumber.splits)

lemma etherBalance_wf: "wf_order x \<Longrightarrow> etherBalance x = Fin (notional x)"
  by (erule wf_orderD) (simp add: notional_def etherBalance_def)

lemma notional_nonneg: "wf_order x \<Longrightarrow> 0 \<le> notional x"
  by (erule wf_orderD) (simp add: notional_def etherBalance_def)

lemma notional_pos: "wf_order x \<Longrightarrow> lt (Fin 0) (balance x) \<Longrightarrow> 0 < notional x"
  by (erule wf_orderD) (simp add: notional_def etherBalance_def)

lemma foldl_plus_wf:
  "\<forall>x \<in> set xs. wf_order x \<Longrightarrow>
   foldl plus_bn (Fin a) (map etherBalance xs) = Fin (a + sum_list (map notional xs))"
  by (induction xs arbitrary: a) (simp_all add: etherBalance_wf add.assoc)

lemma sum_bn_wf:
  "\<forall>x \<in> set xs. wf_order x \<Longrightarrow> sum_bn (map etherBalance xs) = Fin (sum_list (map notional xs))"
  by (simp add: sum_bn_def foldl_plus_wf)

lemma sum_notional_nonneg: "\<forall>x \<in> set xs. wf_order x \<Longrightarrow> 0 \<le> sum_list (map notional xs)"
  by (induction xs) (simp_all add: notional_nonneg)

lemma notional_le_sum:
  "\<forall>x \<in> set xs. wf_order x \<Longrightarrow> y \<in> set xs \<Longrightarrow> notional y \<le> sum_list (map notional xs)"
proof (induction xs)
  case Nil
  then show ?case by simp
next
  case (Cons x xs)
  then have rest: "0 \<le> sum_list (map notional xs)" and hd: "0 \<le> notional x"
    by (simp_all add: sum_notional_nonneg notional_nonneg)
  show ?case
  proof (cases "y = x")
    case True
    with rest show ?thesis by simp
  next
    case False
    with Cons have "notional y \<le> sum_list (map notional xs)" by simp
    with hd show ?thesis by simp
  qed
qed

lemma plottable_depth:
  assumes "plottable ob"
  shows "0 < sum_list (map notional (sells ob)) + sum_list (map notional (buys ob))"
proof -
  from assms have wfb: "\<forall>x \<in> set (buys ob). wf_order x" and wfs: "\<forall>x \<in> set (sells ob). wf_order x"
    by (auto simp: plottable_def)
  from assms obtain x where x: "x \<in> set (sells ob) \<or> x \<in> set (take 2 (buys ob))"
    and pos: "lt (Fin 0) (balance x)"
    by (auto simp: plottable_def)
  from x have mem: "x \<in> set (sells ob) \<or> x \<in> set (buys ob)"
    by (auto dest: in_set_takeD)
  then have "wf_order x" using wfb wfs by auto
  then have px: "0 < notional x" using pos by (rule notional_pos)
  have nb: "0 \<le> sum_list (map notional (buys ob))" and ns: "0 \<le> sum_list (map notional (sells ob))"
    using wfb wfs by (simp_all add: sum_notional_nonneg)
  from mem show ?thesis
  proof
    assume "x \<in> set (sells ob)"
    then have "notional x \<le> sum_list (map notional (sells ob))"
      using wfs by (simp add: notional_le_sum)
    with px nb show ?thesis by linarith
  next
    assume "x \<in> set (buys ob)"
    then have "notional x \<le> sum_list (map notional (buys ob))"
      using wfb by (simp add: notional_le_sum)
    with px ns show ?thesis by linarith
  qed
qed

lemma weightedMid_finite:
  assumes "plottable (orderbook (saturn mm))" "wf_order (bestBuyOrder mm)" "wf_order (bestSellOrder mm)"
  shows "\<exists>w. weightedMidMarketPrice mm = Fin w"
proof -
  let ?ob = "orderbook (saturn mm)"
  from assms(1) have wfb: "\<forall>x \<in> set (buys ?ob). wf_order x" and wfs: "\<forall>x \<in> set (sells ?ob). wf_order x"
    by (auto simp: plottable_def)
  from assms(2) obtain pb where pb: "price (bestBuyOrder mm) = Fin pb" by (auto elim: wf_orderD)
  from assms(3) obtain ps where ps: "price (bestSellOrder mm) = Fin ps" by (auto elim: wf_orderD)
  from plottable_depth [OF assms(1)] have "sum_list (map notional (sells ?ob)) + sum_list (map notional (buys ?ob)) \<noteq> 0"
    by simp
  then show ?thesis
    by (simp add: weightedMidMarketPrice_def buyDepth_def sellDepth_def sum_bn_wf [OF wfb]
        sum_bn_wf [OF wfs] bestBuyPrice_def bestSellPrice_def pb ps)
qed

lemma optimal_finite:
  assumes "plottable (orderbook (saturn mm))" "wf_order (bestBuyOrder mm)" "wf_order (bestSellOrder mm)"
  shows "optimalBuyPrice mm \<noteq> NaN" "optimalSellPrice mm \<noteq> NaN"
    "bestBuyPrice mm \<noteq> NaN" "bestSellPrice mm \<noteq> NaN"
proof -
  from weightedMid_finite [OF assms] obtain w where w: "weightedMidMarketPrice mm = Fin w" ..
  from assms(2) obtain pb where pb: "price (bestBuyOrder mm) = Fin pb" by (auto elim: wf_orderD)
  from assms(3) obtain ps where ps: "price (bestSellOrder mm) = Fin ps" by (auto elim: wf_orderD)
  show "optimalBuyPrice mm \<noteq> NaN" "optimalSellPrice mm \<noteq> NaN"
    "bestBuyPrice mm \<noteq> NaN" "bestSellPrice mm \<noteq> NaN"
    by (simp_all add: optimalBuyPrice_def optimalSellPrice_def w spread_market_def
        bestBuyPrice_def bestSellPrice_def pb ps minus_bn_def)
qed

section \<open>New quotes\<close>

lemma newBuys_eq:
  "newBuys mm =
     (if lte (availableEther mm) (dustCutoff (config mm)) \<or>
         lte (optimalBuyPrice mm) (bestBuyPrice mm) then []
      else [NewOrder (blockchain mm) buy
              (toFixed (tokenDecimals mm) (dividedBy (availableEther mm) (optimalBuyPrice mm)))
              (toFixed PRICEDECIMALS (optimalBuyPrice mm))])"
  by (simp add: newBuys_def Let_def optimalBuyPrice_def)

lemma newSells_eq:
  "newSells mm =
     (if lte (minus_bn (availableTokens mm) (tokensLockedForAddress mm)) (Fin 0) \<or>
         gte (optimalSellPrice mm) (bestSellPrice mm) then []
      else [NewOrder (blockchain mm) sell
              (toFixed (tokenDecimals mm)
                 (minus_bn (availableTokens mm) (tokensLockedForAddress mm)))
              (toFixed PRICEDECIMALS (optimalSellPrice mm))])"
  by (simp add: newSells_def Let_def optimalSellPrice_def)

text \<open>
  Claim C4, amended. Whenever a new buy quote is posted, its price is the weighted mid
  price minus half of the market's current spread (best sell price minus best buy price),
  not half of the configured spread, rounded to 6 decimals, and its amount is the
  available ether divided by that unrounded price, rounded to the token's decimals.
  Whenever a new sell quote is posted, its price is the weighted mid price plus half of
  the market's current spread, rounded to 6 decimals, and its amount is the available
  tokens minus the tokens locked in own sell orders, rounded to the token's decimals.
\<close>

theorem new_quote_prices:
  "(\<forall>a \<in> set (newBuys mm).
      a = NewOrder (blockchain mm) buy
            (toFixed (tokenDecimals mm) (dividedBy (availableEther mm) (optimalBuyPrice mm)))
            (toFixed PRICEDECIMALS (optimalBuyPrice mm)))
   \<and> (\<forall>a \<in> set (newSells mm).
      a = NewOrder (blockchain mm) sell
            (toFixed (tokenDecimals mm)
               (minus_bn (availableTokens mm) (tokensLockedForAddress mm)))
            (toFixed PRICEDECIMALS (optimalSellPrice mm)))"
  by (simp add: newBuys_eq newSells_eq)

text \<open>
  Claim C5, amended. On a plottable book (every order well formed, a sell order or one
  of the first two buy orders with a positive balance) whose best orders are well
  formed, every new buy order the new-quote step produces is priced strictly above the
  best buy price before rounding (and, rounded to 6 decimals, not below the rounded best
  buy price), and every new sell order strictly below the best sell price before
  rounding (and not above the rounded best sell price): the quotes improve on the best
  prices, they do not stand behind them.
\<close>

theorem new_quotes_inside_best:
  assumes "plottable (orderbook (saturn mm))"
    and "wf_order (bestBuyOrder mm)" and "wf_order (bestSellOrder mm)"
  shows "\<forall>b side amt p. NewOrder b side amt p \<in> set (newOrders mm) \<longrightarrow>
           (side = buy \<longrightarrow>
              p = toFixed PRICEDECIMALS (optimalBuyPrice mm) \<and>
              gt (optimalBuyPrice mm) (bestBuyPrice mm) \<and>
              gte p (toFixed PRICEDECIMALS (bestBuyPrice mm))) \<and>
           (side = sell \<longrightarrow>
              p = toFixed PRICEDECIMALS (optimalSellPrice mm) \<and>
              lt (optimalSellPrice mm) (bestSellPrice mm) \<and>
              lte p (toFixed PRICEDECIMALS (bestSellPrice mm)))"
proof (intro allI impI)
  fix b side amt p
  assume mem: "NewOrder b side amt p \<in> set (newOrders mm)"
  note fin = optimal_finite [OF assms]
  from mem consider
    (buys) "NewOrder b side amt p \<in> set (newBuys mm)" |
    (sells) "NewOrder b side amt p \<in> set (newSells mm)"
    by (auto simp: newOrders_def Let_def split: if_splits)
  then show "(side = buy \<longrightarrow>
              p = toFixed PRICEDECIMALS (optimalBuyPrice mm) \<and>
              gt (optimalBuyPrice mm) (bestBuyPrice mm) \<and>
              gte p (toFixed PRICEDECIMALS (bestBuyPrice mm))) \<and>
           (side = sell \<longrightarrow>
              p = toFixed PRICEDECIMALS (optimalSellPrice mm) \<and>
              lt (optimalSellPrice mm) (bestSellPrice mm) \<and>
              lte p (toFixed PRICEDECIMALS (bestSellPrice mm)))"
  proof cases
    case buys
    then have side: "side = buy" and p: "p = toFixed PRICEDECIMALS (optimalBuyPrice mm)"
      and no: "\<not> lte (optimalBuyPrice mm) (bestBuyPrice mm)"
      by (auto simp: newBuys_eq split: if_splits)
    from no fin have above: "gt (optimalBuyPrice mm) (bestBuyPrice mm)"
      by (simp add: not_lte_gt)
    then have "lte (toFixed PRICEDECIMALS (bestBuyPrice mm)) (toFixed PRICEDECIMALS (optimalBuyPrice mm))"
      by (intro toFixed_mono gt_lte)
    with side p above show ?thesis by (simp add: gte_lte)
  next
    case sells
    then have side: "side = sell" and p: "p = toFixed PRICEDECIMALS (optimalSellPrice mm)"
      and no: "\<not> gte (optimalSellPrice mm) (bestSellPrice mm)"
      by (auto simp: newSells_eq split: if_splits)
    from no fin have below: "lt (optimalSellPrice mm) (bestSellPrice mm)"
      by (simp add: not_gte_lt)
    then have "lte (toFixed PRICEDECIMALS (optimalSellPrice mm)) (toFixed PRICEDECIMALS (bestSellPrice mm))"
      by (intro toFixed_mono lt_lte)
    with side p below show ?thesis by simp
  qed
qed

lemma buy_heavy_mid: "weightedMidMarketPrice (buy_heavy_bot limit sp) = Fin (8 / 5)"
  by (simp add: snapshot_defs example_defs bn_defs)

lemma buy_heavy_spread: "spread_market (buy_heavy_bot limit sp) = Fin 1"
  by (simp add: snapshot_defs example_defs bn_defs)

lemma buy_heavy_ether: "availableEther (buy_heavy_bot limit sp) = Fin 10"
  by (simp add: snapshot_defs example_defs bn_defs pow_10)

lemma buy_heavy_optimal: "optimalBuyPrice (buy_heavy_bot limit sp) = Fin (11 / 10)"
  by (simp add: optimalBuyPrice_def buy_heavy_mid buy_heavy_spread bn_defs)

lemma buy_heavy_newBuys:
  "newBuys (buy_heavy_bot limit sp) = [NewOrder ''ETH'' buy (Fin 9) (Fin (11 / 10))]"
proof -
  have "\<not> lte (availableEther (buy_heavy_bot limit sp)) (dustCutoff (config (buy_heavy_bot limit sp)))"
    unfolding buy_heavy_ether by (simp add: example_defs)
  moreover have "\<not> lte (optimalBuyPrice (buy_heavy_bot limit sp)) (bestBuyPrice (buy_heavy_bot limit sp))"
    unfolding buy_heavy_optimal by (simp add: bestBuyPrice_def bestBuyOrder_def example_defs)
  moreover have "toFixed (tokenDecimals (buy_heavy_bot limit sp)) (dividedBy (Fin 10) (Fin (11 / 10))) = Fin 9"
    by (simp add: tokenDecimals_def example_defs bn_defs)
  moreover have "toFixed PRICEDECIMALS (Fin (11 / 10)) = Fin (11 / 10)"
    by (simp add: bn_defs)
  moreover have "blockchain (buy_heavy_bot limit sp) = ''ETH''"
    by (simp add: example_defs)
  ultimately show ?thesis
    unfolding newBuys_eq buy_heavy_optimal buy_heavy_ether by simp
qed

text \<open>
  Claim C4, as stated: the buy price is the weighted mid minus half of the configured
  spread. On a book with weighted mid 1.6, market spread 1 and configured spread 0.5 the
  posted price is 1.6 - 1 / 2 = 1.1, not 1.6 - 0.5 / 2 = 1.35.
\<close>

theorem new_buy_price_counterexample:
  "newBuys (buy_heavy_bot 100 (1 / 2)) = [NewOrder ''ETH'' buy (Fin 9) (Fin (11 / 10))] \<and>
   toFixed PRICEDECIMALS
     (minus_bn (weightedMidMarketPrice (buy_heavy_bot 100 (1 / 2)))
        (dividedBy (MarketMakerConfig.spread (config (buy_heavy_bot 100 (1 / 2)))) (Fin 2))) =
     Fin (27 / 20) \<and>
   toFixed PRICEDECIMALS
     (minus_bn (weightedMidMarketPrice (buy_heavy_bot 100 (1 / 2)))
        (dividedBy (spread_market (buy_heavy_bot 100 (1 / 2))) (Fin 2))) =
     Fin (11 / 10)"
  unfolding buy_heavy_newBuys buy_heavy_mid buy_heavy_spread
  by (simp add: example_defs bn_defs)


lemma sell_heavy_spread: "spread_market (sell_heavy_bot limit own) = Fin 1"
  by (simp add: snapshot_defs example_defs bn_defs)

lemma sell_heavy_optimal: "optimalSellPrice (sell_heavy_bot limit own) = Fin (17 / 10)"
  by (simp add: optimalSellPrice_def sell_heavy_mid sell_heavy_spread bn_defs)

lemma sell_heavy_tokens:
  "availableTokens (sell_heavy_bot limit []) = Fin (min 1 limit)"
  by (simp add: availableTokens_def tokenDecimals_def example_defs bn_defs min_def)

lemma sell_heavy_locked: "tokensLockedForAddress (sell_heavy_bot limit []) = Fin 0"
  by (simp add: tokensLockedForAddress_def fetchOrdersFor_def example_defs bn_defs)

lemma sell_heavy_newSells:
  assumes "0 < limit"
  shows "newSells (sell_heavy_bot limit []) =
           [NewOrder ''ETH'' sell (Fin (round_half_up 0 (min 1 limit))) (Fin (17 / 10))]"
proof -
  have "\<not> gte (optimalSellPrice (sell_heavy_bot limit [])) (bestSellPrice (sell_heavy_bot limit []))"
    unfolding sell_heavy_optimal by (simp add: bestSellPrice_def bestSellOrder_def example_defs)
  moreover have "toFixed PRICEDECIMALS (Fin (17 / 10)) = Fin (17 / 10)"
    by (simp add: bn_defs)
  moreover have "blockchain (sell_heavy_bot limit []) = ''ETH''"
    "tokenDecimals (sell_heavy_bot limit []) = 0"
    by (simp_all add: tokenDecimals_def example_defs)
  ultimately show ?thesis
    unfolding newSells_eq sell_heavy_optimal sell_heavy_tokens sell_heavy_locked
    using assms by (simp add: minus_bn_def)
qed

lemma buy_heavy_newSells: "newSells (buy_heavy_bot limit sp) = []"
proof -
  have "tokensLockedForAddress (buy_heavy_bot limit sp) = Fin 0"
    by (simp add: tokensLockedForAddress_def fetchOrdersFor_def example_defs bn_defs)
  moreover have "availableTokens (buy_heavy_bot limit sp) = Fin (min 0 limit)"
    by (simp add: availableTokens_def tokenDecimals_def example_defs bn_defs min_def)
  ultimately show ?thesis
    unfolding newSells_eq by (simp add: minus_bn_def)
qed

text \<open>The two books at which a buy and a sell are posted.\<close>

theorem new_quote_prices_witness:
  "NewOrder ''ETH'' buy (Fin 9) (Fin (11 / 10)) \<in> set (newBuys (buy_heavy_bot 100 (1 / 2))) \<and>
   toFixed PRICEDECIMALS (optimalBuyPrice (buy_heavy_bot 100 (1 / 2))) = Fin (11 / 10) \<and>
   toFixed (tokenDecimals (buy_heavy_bot 100 (1 / 2)))
     (dividedBy (availableEther (buy_heavy_bot 100 (1 / 2)))
        (optimalBuyPrice (buy_heavy_bot 100 (1 / 2)))) = Fin 9 \<and>
   NewOrder ''ETH'' sell (Fin 1) (Fin (17 / 10)) \<in> set (newSells (sell_heavy_bot 3 [])) \<and>
   toFixed PRICEDECIMALS (optimalSellPrice (sell_heavy_bot 3 [])) = Fin (17 / 10)"
proof -
  have b: "NewOrder ''ETH'' buy (Fin 9) (Fin (11 / 10)) \<in> set (newBuys (buy_heavy_bot 100 (1 / 2)))"
    by (simp add: buy_heavy_newBuys)
  have "round_half_up 0 (min 1 3) = 1"
    by (simp add: round_half_up_def)
  then have s: "NewOrder ''ETH'' sell (Fin 1) (Fin (17 / 10)) \<in> set (newSells (sell_heavy_bot 3 []))"
    by (simp add: sell_heavy_newSells)
  from new_quote_prices [of "buy_heavy_bot 100 (1 / 2)"] b
  have "NewOrder ''ETH'' buy (Fin 9) (Fin (11 / 10)) =
      NewOrder (blockchain (buy_heavy_bot 100 (1 / 2))) buy
        (toFixed (tokenDecimals (buy_heavy_bot 100 (1 / 2)))
           (dividedBy (availableEther (buy_heavy_bot 100 (1 / 2)))
              (optimalBuyPrice (buy_heavy_bot 100 (1 / 2)))))
        (toFixed PRICEDECIMALS (optimalBuyPrice (buy_heavy_bot 100 (1 / 2))))"
    by blast
  moreover from new_quote_prices [of "sell_heavy_bot 3 []"] s
  have "NewOrder ''ETH'' sell (Fin 1) (Fin (17 / 10)) =
      NewOrder (blockchain (sell_heavy_bot 3 [])) sell
        (toFixed (tokenDecimals (sell_heavy_bot 3 []))
           (minus_bn (availableTokens (sell_heavy_bot 3 [])) (tokensLockedForAddress (sell_heavy_bot 3 []))))
        (toFixed PRICEDECIMALS (optimalSellPrice (sell_heavy_bot 3 [])))"
    by blast
  ultimately show ?thesis using b s by simp
qed

text \<open>
  Claim C5, as stated: a produced buy order is priced strictly below the best buy price.
  On the same book (market spread 1 above the configured 0.5, 10 ether available) the buy
  order is priced at 1.1, above the best buy price 1.
\<close>

theorem new_buy_above_best_counterexample:
  "newOrders (buy_heavy_bot 100 (1 / 2)) = [NewOrder ''ETH'' buy (Fin 9) (Fin (11 / 10))] \<and>
   gt (spread_market (buy_heavy_bot 100 (1 / 2)))
      (MarketMakerConfig.spread (config (buy_heavy_bot 100 (1 / 2)))) \<and>
   gt (availableEther (buy_heavy_bot 100 (1 / 2))) (dustCutoff (config (buy_heavy_bot 100 (1 / 2)))) \<and>
   bestBuyPrice (buy_heavy_bot 100 (1 / 2)) = Fin 1 \<and>
   \<not> lt (Fin (11 / 10)) (bestBuyPrice (buy_heavy_bot 100 (1 / 2)))"
proof -
  have cfg: "MarketMakerConfig.spread (config (buy_heavy_bot 100 (1 / 2))) = Fin (1 / 2)"
    "dustCutoff (config (buy_heavy_bot 100 (1 / 2))) = Fin 5"
    "bestBuyPrice (buy_heavy_bot 100 (1 / 2)) = Fin 1"
    by (simp_all add: bestBuyPrice_def bestBuyOrder_def example_defs)
  show ?thesis
    unfolding newOrders_def Let_def buy_heavy_newBuys buy_heavy_newSells buy_heavy_spread
      buy_heavy_ether cfg
    by simp
qed

lemma example_plottable:
  "plottable (orderbook (saturn (buy_heavy_bot limit sp)))"
  "wf_order (bestBuyOrder (buy_heavy_bot limit sp))"
  "wf_order (bestSellOrder (buy_heavy_bot limit sp))"
  "plottable (orderbook (saturn (sell_heavy_bot limit own)))"
  "wf_order (bestBuyOrder (sell_heavy_bot limit own))"
  "wf_order (bestSellOrder (sell_heavy_bot limit own))"
  by (simp_all add: plottable_def wf_order_def bestBuyOrder_def bestSellOrder_def example_defs)

theorem new_quotes_inside_best_witness:
  "plottable (orderbook (saturn (buy_heavy_bot 100 (1 / 2)))) \<and>
   wf_order (bestBuyOrder (buy_heavy_bot 100 (1 / 2))) \<and>
   wf_order (bestSellOrder (buy_heavy_bot 100 (1 / 2))) \<and>
   NewOrder ''ETH'' buy (Fin 9) (Fin (11 / 10)) \<in> set (newOrders (buy_heavy_bot 100 (1 / 2))) \<and>
   gt (optimalBuyPrice (buy_heavy_bot 100 (1 / 2))) (bestBuyPrice (buy_heavy_bot 100 (1 / 2))) \<and>
   plottable (orderbook (saturn (sell_heavy_bot 3 []))) \<and>
   wf_order (bestBuyOrder (sell_heavy_bot 3 [])) \<and>
   wf_order (bestSellOrder (sell_heavy_bot 3 [])) \<and>
   NewOrder ''ETH'' sell (Fin 1) (Fin (17 / 10)) \<in> set (newOrders (sell_heavy_bot 3 [])) \<and>
   lt (optimalSellPrice (sell_heavy_bot 3 [])) (bestSellPrice (sell_heavy_bot 3 []))"
proof -
  have nb: "\<not> lte (spread_market (buy_heavy_bot 100 (1 / 2)))
              (MarketMakerConfig.spread (config (buy_heavy_bot 100 (1 / 2))))"
    unfolding buy_heavy_spread by (simp add: example_defs)
  have b: "NewOrder ''ETH'' buy (Fin 9) (Fin (11 / 10)) \<in> set (newOrders (buy_heavy_bot 100 (1 / 2)))"
    using nb by (simp add: newOrders_def buy_heavy_newBuys)
  have ns: "\<not> lte (spread_market (sell_heavy_bot 3 []))
              (MarketMakerConfig.spread (config (sell_heavy_bot 3 [])))"
    unfolding sell_heavy_spread by (simp add: example_defs)
  have "round_half_up 0 (min 1 3) = 1"
    by (simp add: round_half_up_def)
  then have s: "NewOrder ''ETH'' sell (Fin 1) (Fin (17 / 10)) \<in> set (newOrders (sell_heavy_bot 3 []))"
    using ns by (simp add: newOrders_def sell_heavy_newSells)
  from new_quotes_inside_best [OF example_plottable(1-3), of 100 "1 / 2"] b
  have "gt (optimalBuyPrice (buy_heavy_bot 100 (1 / 2))) (bestBuyPrice (buy_heavy_bot 100 (1 / 2)))"
    by blast
  moreover from new_quotes_inside_best [OF example_plottable(4-6), of 3 "[]"] s
  have "lt (optimalSellPrice (sell_heavy_bot 3 [])) (bestSellPrice (sell_heavy_bot 3 []))"
    by blast
  ultimately show ?thesis using b s example_plottable by simp
qed

section \<open>The token limit\<close>

lemma availableTokens_eq:
  "availableTokens mm =
     maxOrMin gt (Fin (round_half_up DECIMAL_PLACES (of_nat (balanceOf (saturn mm)) / 10 ^ decimals (saturn mm))))
       [tokenLimit (config mm)]"
  by (simp add: availableTokens_def tokenDecimals_def Let_def pow_10)

lemma availableTokens_bound:
  assumes "tokenLimit (config mm) \<noteq> NaN"
  shows "lte (availableTokens mm) (tokenLimit (config mm))"
    and "availableTokens mm \<noteq> NaN" and "availableTokens mm \<noteq> PInf"
  using assms unfolding availableTokens_eq
  by (cases "tokenLimit (config mm)"; auto simp: lte_def gt_def)+

lemma min_bn_le_last:
  "a \<noteq> NaN \<Longrightarrow> b \<noteq> NaN \<Longrightarrow> c \<noteq> NaN \<Longrightarrow> lte (min_bn [a, b, c]) c"
  by (cases a; cases b; cases c) (auto simp: lte_def gt_def)

lemma minus_bn_le:
  "lte (Fin 0) l \<Longrightarrow> x \<noteq> NaN \<Longrightarrow> x \<noteq> PInf \<Longrightarrow> lte (minus_bn x l) x"
  by (cases x; cases l) (auto simp: lte_def minus_bn_def)

text \<open>
  Claim C10, amended. With a token limit that is a number, the available tokens (the
  minimum of the wallet's token balance and the token limit) are at most the token limit;
  each arbitrage trade's amount is at most the token limit (when the best orders'
  balances are numbers); and each new sell order's amount is at most the token limit
  rounded to the token's decimals (when the tokens locked in own sell orders are not
  negative), which is the token limit itself when it has no more decimals than the
  token. The amount of a new buy order is not bounded by the token limit.
\<close>

theorem amounts_within_tokenLimit:
  assumes "tokenLimit (config mm) \<noteq> NaN"
  shows "lte (availableTokens mm) (tokenLimit (config mm))
       \<and> (balance (bestBuyOrder mm) \<noteq> NaN \<and> balance (bestSellOrder mm) \<noteq> NaN \<longrightarrow>
            (\<forall>b c t amt. Trade b c t amt \<in> set (checkArbOpportunity mm) \<longrightarrow>
               lte amt (tokenLimit (config mm))))
       \<and> (lte (Fin 0) (tokensLockedForAddress mm) \<longrightarrow>
            (\<forall>b amt p. NewOrder b sell amt p \<in> set (newSells mm) \<longrightarrow>
               lte amt (toFixed (tokenDecimals mm) (tokenLimit (config mm))) \<and>
               (toFixed (tokenDecimals mm) (tokenLimit (config mm)) = tokenLimit (config mm) \<longrightarrow>
                  lte amt (tokenLimit (config mm)))))"
proof (intro conjI impI allI)
  note av = availableTokens_bound [OF assms]
  show "lte (availableTokens mm) (tokenLimit (config mm))" by (rule av(1))
  {
    fix b c t amt
    assume bal: "balance (bestBuyOrder mm) \<noteq> NaN \<and> balance (bestSellOrder mm) \<noteq> NaN"
      and mem: "Trade b c t amt \<in> set (checkArbOpportunity mm)"
    from mem have "amt = min_bn [balance (bestBuyOrder mm), balance (bestSellOrder mm), availableTokens mm]"
      by (auto simp: checkArbOpportunity_def Let_def split: if_splits)
    with bal av(2) have "lte amt (availableTokens mm)"
      by (simp add: min_bn_le_last del: min_bn.simps)
    then show "lte amt (tokenLimit (config mm))"
      using av(1) by (rule lte_trans)
  }
  {
    fix b amt p
    assume locked: "lte (Fin 0) (tokensLockedForAddress mm)"
      and mem: "NewOrder b sell amt p \<in> set (newSells mm)"
    from mem have amt: "amt = toFixed (tokenDecimals mm)
        (minus_bn (availableTokens mm) (tokensLockedForAddress mm))"
      by (auto simp: newSells_eq split: if_splits)
    have "lte (minus_bn (availableTokens mm) (tokensLockedForAddress mm)) (availableTokens mm)"
      using locked av(2,3) by (rule minus_bn_le)
    then have "lte (minus_bn (availableTokens mm) (tokensLockedForAddress mm)) (tokenLimit (config mm))"
      using av(1) by (rule lte_trans)
    then have bound: "lte amt (toFixed (tokenDecimals mm) (tokenLimit (config mm)))"
      unfolding amt by (rule toFixed_mono)
    then show "lte amt (toFixed (tokenDecimals mm) (tokenLimit (config mm)))" .
    assume "toFixed (tokenDecimals mm) (tokenLimit (config mm)) = tokenLimit (config mm)"
    with bound show "lte amt (tokenLimit (config mm))" by simp
  }
qed

text \<open>
  Claim C10, as stated: every amount the engine emits is at most the token limit. With a
  token limit of 0.5 on a token without decimals and one token in the wallet, the sell
  order's amount is 0.5 rounded half up, that is 1. With a token limit of 3 and 10 ether
  in the wallet, the buy order is for 9 tokens.
\<close>

theorem amounts_exceed_tokenLimit_counterexample:
  "newSells (sell_heavy_bot (1 / 2) []) = [NewOrder ''ETH'' sell (Fin 1) (Fin (17 / 10))] \<and>
   tokenLimit (config (sell_heavy_bot (1 / 2) [])) = Fin (1 / 2) \<and>
   \<not> lte (Fin 1) (tokenLimit (config (sell_heavy_bot (1 / 2) []))) \<and>
   newBuys (buy_heavy_bot 3 (1 / 2)) = [NewOrder ''ETH'' buy (Fin 9) (Fin (11 / 10))] \<and>
   tokenLimit (config (buy_heavy_bot 3 (1 / 2))) = Fin 3 \<and>
   \<not> lte (Fin 9) (tokenLimit (config (buy_heavy_bot 3 (1 / 2))))"
proof -
  have "round_half_up 0 (min 1 (1 / 2)) = 1"
    by (simp add: round_half_up_def)
  then have "newSells (sell_heavy_bot (1 / 2) []) = [NewOrder ''ETH'' sell (Fin 1) (Fin (17 / 10))]"
    by (simp add: sell_heavy_newSells)
  moreover have "tokenLimit (config (sell_heavy_bot (1 / 2) [])) = Fin (1 / 2)"
    "tokenLimit (config (buy_heavy_bot 3 (1 / 2))) = Fin 3"
    by (simp_all add: example_defs)
  ultimately show ?thesis
    by (simp add: buy_heavy_newBuys)
qed

theorem amounts_within_tokenLimit_witness:
  "tokenLimit (config (crossed_bot 5)) \<noteq> NaN \<and>
   lte (availableTokens (crossed_bot 5)) (tokenLimit (config (crossed_bot 5))) \<and>
   Trade ''ETH'' ''0xc'' ''b1'' (Fin 2) \<in> set (checkArbOpportunity (crossed_bot 5)) \<and>
   lte (Fin 2) (tokenLimit (config (crossed_bot 5))) \<and>
   tokenLimit (config (sell_heavy_bot 3 [])) \<noteq> NaN \<and>
   lte (Fin 0) (tokensLockedForAddress (sell_heavy_bot 3 [])) \<and>
   NewOrder ''ETH'' sell (Fin 1) (Fin (17 / 10)) \<in> set (newSells (sell_heavy_bot 3 [])) \<and>
   lte (Fin 1) (toFixed (tokenDecimals (sell_heavy_bot 3 [])) (tokenLimit (config (sell_heavy_bot 3 []))))"
proof -
  have l5: "tokenLimit (config (crossed_bot 5)) \<noteq> NaN"
    and l3: "tokenLimit (config (sell_heavy_bot 3 [])) \<noteq> NaN"
    by (simp_all add: example_defs)
  have bal: "balance (bestBuyOrder (crossed_bot 5)) \<noteq> NaN \<and> balance (bestSellOrder (crossed_bot 5)) \<noteq> NaN"
    by (simp add: bestBuyOrder_def bestSellOrder_def example_defs)
  have s5: "lte (spread_market (crossed_bot 5)) (Fin 0)"
    by (simp add: snapshot_defs example_defs minus_bn_def)
  have a5: "availableTokens (crossed_bot 5) = Fin 3"
    by (simp add: snapshot_defs example_defs bn_defs)
  have o5: "bestBuyOrder (crossed_bot 5) = buy_order ''b1'' 2 4"
    "bestSellOrder (crossed_bot 5) = sell_order ''s1'' 1 2"
    "blockchain (crossed_bot 5) = ''ETH''"
    by (simp_all add: snapshot_defs crossed_bot_def example_bot_def)
  have t: "Trade ''ETH'' ''0xc'' ''b1'' (Fin 2) \<in> set (checkArbOpportunity (crossed_bot 5))"
    using s5 by (simp add: checkArbOpportunity_def Let_def a5 o5 buy_order_def sell_order_def gt_def)
  have lk: "lte (Fin 0) (tokensLockedForAddress (sell_heavy_bot 3 []))"
    by (simp add: sell_heavy_locked)
  have "round_half_up 0 (min 1 3) = 1"
    by (simp add: round_half_up_def)
  then have s: "NewOrder ''ETH'' sell (Fin 1) (Fin (17 / 10)) \<in> set (newSells (sell_heavy_bot 3 []))"
    by (simp add: sell_heavy_newSells)
  from amounts_within_tokenLimit [OF l5] bal t
  have "lte (availableTokens (crossed_bot 5)) (tokenLimit (config (crossed_bot 5)))"
    "lte (Fin 2) (tokenLimit (config (crossed_bot 5)))"
    by blast+
  moreover from amounts_within_tokenLimit [OF l3] lk s
  have "lte (Fin 1) (toFixed (tokenDecimals (sell_heavy_bot 3 [])) (tokenLimit (config (sell_heavy_bot 3 []))))"
    by blast
  ultimately show ?thesis using l5 l3 t lk s by simp
qed

section \<open>The outlier filter\<close>

lemma filter_loop_all:
  "(\<forall>j < length xs. lte (foldl plus_bn c (map etherBalance (take (Suc j) xs))) u) \<Longrightarrow>
   filter_loop u c xs = (xs, False)"
proof (induction xs arbitrary: c)
  case Nil
  then show ?case by simp
next
  case (Cons x xs)
  from Cons.prems have first: "lte (plus_bn c (etherBalance x)) u"
    by (auto dest: spec [of _ 0])
  have "\<forall>j < length xs.
      lte (foldl plus_bn (plus_bn c (etherBalance x)) (map etherBalance (take (Suc j) xs))) u"
  proof (intro allI impI)
    fix j assume "j < length xs"
    then have "Suc j < length (x # xs)" by simp
    with Cons.prems have "lte (foldl plus_bn c (map etherBalance (take (Suc (Suc j)) (x # xs)))) u"
      by blast
    then show "lte (foldl plus_bn (plus_bn c (etherBalance x)) (map etherBalance (take (Suc j) xs))) u"
      by simp
  qed
  then have "filter_loop u (plus_bn c (etherBalance x)) xs = (xs, False)"
    by (rule Cons.IH)
  with first show ?case by simp
qed

lemma filter_loop_cut:
  "k < length xs \<Longrightarrow>
   \<not> lte (foldl plus_bn c (map etherBalance (take (Suc k) xs))) u \<Longrightarrow>
   (\<forall>j < k. lte (foldl plus_bn c (map etherBalance (take (Suc j) xs))) u) \<Longrightarrow>
   filter_loop u c xs =
     (take k xs @ [(xs ! k)\<lparr>balance := dividedBy u (price (xs ! k))\<rparr>], True)"
proof (induction xs arbitrary: c k)
  case Nil
  then show ?case by simp
next
  case (Cons x xs)
  show ?case
  proof (cases k)
    case 0
    with Cons.prems(2) have "\<not> lte (plus_bn c (etherBalance x)) u" by simp
    with 0 show ?thesis by simp
  next
    case (Suc k')
    with Cons.prems(3) have first: "lte (plus_bn c (etherBalance x)) u"
      by (auto dest: spec [of _ 0])
    from Suc Cons.prems(1) have len: "k' < length xs" by simp
    from Suc Cons.prems(2)
    have cut: "\<not> lte (foldl plus_bn (plus_bn c (etherBalance x)) (map etherBalance (take (Suc k') xs))) u"
      by simp
    have before: "\<forall>j < k'.
        lte (foldl plus_bn (plus_bn c (etherBalance x)) (map etherBalance (take (Suc j) xs))) u"
    proof (intro allI impI)
      fix j assume "j < k'"
      then have "Suc j < k" using Suc by simp
      with Cons.prems(3) have "lte (foldl plus_bn c (map etherBalance (take (Suc (Suc j)) (x # xs)))) u"
        by blast
      then show "lte (foldl plus_bn (plus_bn c (etherBalance x)) (map etherBalance (take (Suc j) xs))) u"
        by simp
    qed
    from Cons.IH [OF len cut before] first Suc show ?thesis by simp
  qed
qed

lemma cumulative_drop:
  "cumulative orders (Suc (Suc j)) =
     foldl plus_bn (Fin 0) (map etherBalance (take (Suc j) (drop 2 orders)))"
  by (simp add: cumulative_def sum_bn_def)

lemma first_two:
  assumes "2 \<le> length orders"
  shows "[nth_opt orders 0, nth_opt orders 1] @ map Some ys = map Some (take 2 orders @ ys)"
proof -
  from assms obtain a b rest where "orders = a # b # rest"
    by (cases orders; cases "tl orders") auto
  then show ?thesis by (simp add: nth_opt_def)
qed

text \<open>
  Claim C8. For every list of at least two orders (so for every list of at least three)
  and buy-side depth \<open>depth\<close>, with cap 1.5 times \<open>depth\<close>: the filter keeps the
  first two orders unconditionally and keeps each later order while the cumulative
  notional, accumulated from the third order on, stays at most the cap. If no order
  crosses the cap, all orders are kept and \<open>truncated\<close> is not set. Otherwise the first
  order that takes the cumulative notional past the cap is kept with its balance
  rewritten to the cap divided by its price, \<open>truncated\<close> is set, and all later orders
  are dropped.
\<close>

theorem filterSellOrders_spec:
  assumes "2 \<le> length orders"
  shows "((\<forall>i. 2 \<le> i \<and> i < length orders \<longrightarrow> lte (cumulative orders i) (cap depth)) \<longrightarrow>
            filterSellOrders depth orders = (map Some orders, False))
       \<and> (\<forall>k. 2 \<le> k \<and> k < length orders \<and> \<not> lte (cumulative orders k) (cap depth) \<and>
               (\<forall>i. 2 \<le> i \<and> i < k \<longrightarrow> lte (cumulative orders i) (cap depth)) \<longrightarrow>
            filterSellOrders depth orders =
              (map Some (take k orders @
                 [(orders ! k)\<lparr>balance := dividedBy (cap depth) (price (orders ! k))\<rparr>]), True))"
proof (intro conjI allI impI)
  assume all: "\<forall>i. 2 \<le> i \<and> i < length orders \<longrightarrow> lte (cumulative orders i) (cap depth)"
  have "\<forall>j < length (drop 2 orders).
      lte (foldl plus_bn (Fin 0) (map etherBalance (take (Suc j) (drop 2 orders)))) (cap depth)"
  proof (intro allI impI)
    fix j assume "j < length (drop 2 orders)"
    then have "2 \<le> Suc (Suc j) \<and> Suc (Suc j) < length orders" by simp
    with all have "lte (cumulative orders (Suc (Suc j))) (cap depth)" by blast
    then show "lte (foldl plus_bn (Fin 0) (map etherBalance (take (Suc j) (drop 2 orders)))) (cap depth)"
      by (simp only: cumulative_drop)
  qed
  then have "filter_loop (cap depth) (Fin 0) (drop 2 orders) = (drop 2 orders, False)"
    by (rule filter_loop_all)
  then have "filterSellOrders depth orders =
      ([nth_opt orders 0, nth_opt orders 1] @ map Some (drop 2 orders), False)"
    by (simp add: filterSellOrders_def cap_def)
  also have "[nth_opt orders 0, nth_opt orders 1] @ map Some (drop 2 orders) =
      map Some (take 2 orders @ drop 2 orders)"
    using assms by (rule first_two)
  finally show "filterSellOrders depth orders = (map Some orders, False)"
    by simp
next
  fix k
  assume k: "2 \<le> k \<and> k < length orders \<and> \<not> lte (cumulative orders k) (cap depth) \<and>
               (\<forall>i. 2 \<le> i \<and> i < k \<longrightarrow> lte (cumulative orders i) (cap depth))"
  then have k2: "2 \<le> k" and kl: "k < length orders"
    and kc: "\<not> lte (cumulative orders k) (cap depth)"
    and kb: "\<And>i. 2 \<le> i \<Longrightarrow> i < k \<Longrightarrow> lte (cumulative orders i) (cap depth)"
    by blast+
  define k' where "k' = k - 2"
  with k2 have k': "k = Suc (Suc k')" by arith
  from kl k' have len: "k' < length (drop 2 orders)" by simp
  from kc have "\<not> lte (cumulative orders (Suc (Suc k'))) (cap depth)"
    unfolding k' .
  then have cut: "\<not> lte (foldl plus_bn (Fin 0)
      (map etherBalance (take (Suc k') (drop 2 orders)))) (cap depth)"
    unfolding cumulative_drop .
  have before: "\<forall>j < k'. lte (foldl plus_bn (Fin 0)
      (map etherBalance (take (Suc j) (drop 2 orders)))) (cap depth)"
  proof (intro allI impI)
    fix j assume "j < k'"
    with k' have "lte (cumulative orders (Suc (Suc j))) (cap depth)" by (intro kb) simp_all
    then show "lte (foldl plus_bn (Fin 0) (map etherBalance (take (Suc j) (drop 2 orders)))) (cap depth)"
      by (simp only: cumulative_drop)
  qed
  have nth: "drop 2 orders ! k' = orders ! k"
    using kl k' by simp
  have tk: "take 2 orders @ take k' (drop 2 orders) = take k orders"
    using k' by (simp add: take_add [of 2 k' orders, symmetric] del: take_Suc_Cons)
  let ?cut = "[(orders ! k)\<lparr>balance := dividedBy (cap depth) (price (orders ! k))\<rparr>]"
  from filter_loop_cut [OF len cut before]
  have "filter_loop (cap depth) (Fin 0) (drop 2 orders) = (take k' (drop 2 orders) @ ?cut, True)"
    by (simp only: nth)
  then have "filterSellOrders depth orders =
      ([nth_opt orders 0, nth_opt orders 1] @ map Some (take k' (drop 2 orders) @ ?cut), True)"
    by (simp add: filterSellOrders_def cap_def)
  also have "[nth_opt orders 0, nth_opt orders 1] @ map Some (take k' (drop 2 orders) @ ?cut) =
      map Some (take 2 orders @ take k' (drop 2 orders) @ ?cut)"
    using assms by (rule first_two)
  also have "take 2 orders @ take k' (drop 2 orders) @ ?cut = take k orders @ ?cut"
    using tk by simp
  finally show "filterSellOrders depth orders = (map Some (take k orders @ ?cut), True)" .
qed


text \<open>
  The spec's example: depth 10, cap 15, a third order of notional 100 is kept with
  balance 15; a third order of notional 7 is kept as it is.
\<close>

theorem filterSellOrders_spec_witness:
  "2 \<le> length [buy_order ''b1'' 1 1, buy_order ''b2'' 1 1, buy_order ''b3'' 1 100] \<and>
   cap (Fin 10) = Fin 15 \<and>
   cumulative [buy_order ''b1'' 1 1, buy_order ''b2'' 1 1, buy_order ''b3'' 1 100] 2 = Fin 100 \<and>
   filterSellOrders (Fin 10) [buy_order ''b1'' 1 1, buy_order ''b2'' 1 1, buy_order ''b3'' 1 100] =
     ([Some (buy_order ''b1'' 1 1), Some (buy_order ''b2'' 1 1), Some (buy_order ''b3'' 1 15)], True) \<and>
   cumulative [buy_order ''b1'' 1 1, buy_order ''b2'' 1 1, buy_order ''b3'' 1 7] 2 = Fin 7 \<and>
   filterSellOrders (Fin 10) [buy_order ''b1'' 1 1, buy_order ''b2'' 1 1, buy_order ''b3'' 1 7] =
     ([Some (buy_order ''b1'' 1 1), Some (buy_order ''b2'' 1 1), Some (buy_order ''b3'' 1 7)], False)"
proof -
  let ?big = "[buy_order ''b1'' 1 1, buy_order ''b2'' 1 1, buy_order ''b3'' 1 100]"
  let ?small = "[buy_order ''b1'' 1 1, buy_order ''b2'' 1 1, buy_order ''b3'' 1 7]"
  have len: "2 \<le> length ?big" "2 \<le> length ?small" by simp_all
  have c: "cap (Fin 10) = Fin 15" by (simp add: cap_def)
  have big: "cumulative ?big 2 = Fin 100"
    by (simp add: cumulative_def sum_bn_def etherBalance_def buy_order_def)
  have small: "cumulative ?small 2 = Fin 7"
    by (simp add: cumulative_def sum_bn_def etherBalance_def buy_order_def)
  have "2 \<le> (2::nat) \<and> 2 < length ?big \<and> \<not> lte (cumulative ?big 2) (cap (Fin 10)) \<and>
      (\<forall>i. 2 \<le> i \<and> i < 2 \<longrightarrow> lte (cumulative ?big i) (cap (Fin 10)))"
    unfolding big c by auto
  with filterSellOrders_spec [OF len(1), of "Fin 10"]
  have "filterSellOrders (Fin 10) ?big =
      (map Some (take 2 ?big @
         [(?big ! 2)\<lparr>balance := dividedBy (cap (Fin 10)) (price (?big ! 2))\<rparr>]), True)"
    by blast
  moreover have "(?big ! 2)\<lparr>balance := dividedBy (cap (Fin 10)) (price (?big ! 2))\<rparr> =
      buy_order ''b3'' 1 15"
    unfolding c by (simp add: buy_order_def bn_defs)
  ultimately have r1: "filterSellOrders (Fin 10) ?big =
      ([Some (buy_order ''b1'' 1 1), Some (buy_order ''b2'' 1 1), Some (buy_order ''b3'' 1 15)], True)"
    by simp
  have "\<forall>i. 2 \<le> i \<and> i < length ?small \<longrightarrow> lte (cumulative ?small i) (cap (Fin 10))"
  proof (intro allI impI)
    fix i :: nat
    assume "2 \<le> i \<and> i < length ?small"
    then have "i = 2" by simp
    then show "lte (cumulative ?small i) (cap (Fin 10))"
      unfolding c using small by simp
  qed
  with filterSellOrders_spec [OF len(2), of "Fin 10"]
  have "filterSellOrders (Fin 10) ?small = (map Some ?small, False)"
    by blast
  then have r2: "filterSellOrders (Fin 10) ?small =
      ([Some (buy_order ''b1'' 1 1), Some (buy_order ''b2'' 1 1), Some (buy_order ''b3'' 1 7)], False)"
    by simp
  from len c big small r1 r2 show ?thesis by simp
qed

section \<open>The nearest double\<close>

text \<open>
  What the renderer needs of \<open>toNumber\<close>: it keeps the order of the decimals, it maps
  0 to 0 and 16 to 16, and so it maps a decimal from 0 to 16 to a double from 0 to 16.
\<close>

lemma round_half_even_mono:
  assumes "x \<le> y"
  shows "round_half_even x \<le> round_half_even y"
proof -
  have fl: "\<lfloor>x\<rfloor> \<le> \<lfloor>y\<rfloor>" using assms by (rule floor_mono)
  have lo: "\<lfloor>z\<rfloor> \<le> round_half_even z" and hi: "round_half_even z \<le> \<lfloor>z\<rfloor> + 1" for z
    by (simp_all add: round_half_even_def Let_def)
  show ?thesis
  proof (cases "\<lfloor>x\<rfloor> = \<lfloor>y\<rfloor>")
    case False
    with fl have "\<lfloor>x\<rfloor> + 1 \<le> \<lfloor>y\<rfloor>" by simp
    with hi [of x] lo [of y] show ?thesis by linarith
  next
    case True
    with assms have "x - of_int \<lfloor>x\<rfloor> \<le> y - of_int \<lfloor>y\<rfloor>" by simp
    with True show ?thesis
      by (auto simp: round_half_even_def Let_def)
  qed
qed

lemma round_half_even_of_int: "round_half_even (of_int n) = n"
  by (simp add: round_half_even_def)

lemma round_half_even_le: "x \<le> of_int n \<Longrightarrow> round_half_even x \<le> n"
  using round_half_even_mono [of x "of_int n"] by (simp add: round_half_even_of_int)

lemma round_half_even_ge: "of_int n \<le> x \<Longrightarrow> n \<le> round_half_even x"
  using round_half_even_mono [of "of_int n" x] by (simp add: round_half_even_of_int)

lemma binade_range: "k \<le> binade n k a \<and> binade n k a \<le> k + int n"
proof (induction n arbitrary: k)
  case 0
  then show ?case by simp
next
  case (Suc n)
  from Suc [of "k + 1"] show ?case by simp
qed

lemma binade_upper: "binade n k a < k + int n \<Longrightarrow> a < 2 powi (binade n k a + 1)"
proof (induction n arbitrary: k)
  case 0
  then show ?case by simp
next
  case (Suc n)
  show ?case
  proof (cases "2 powi (k + 1) \<le> a")
    case True
    with Suc.prems have "binade n (k + 1) a < k + 1 + int n" by simp
    from Suc.IH [OF this] True show ?thesis by simp
  next
    case False
    then show ?thesis by simp
  qed
qed

lemma binade_lower: "k < binade n k a \<Longrightarrow> 2 powi (binade n k a) \<le> a"
proof (induction n arbitrary: k)
  case 0
  then show ?case by simp
next
  case (Suc n)
  show ?case
  proof (cases "2 powi (k + 1) \<le> a")
    case True
    show ?thesis
    proof (cases "k + 1 < binade n (k + 1) a")
      case True
      from Suc.IH [OF this] \<open>2 powi (k + 1) \<le> a\<close> show ?thesis by simp
    next
      case False
      with binade_range [of "k + 1" n a] have "binade n (k + 1) a = k + 1" by simp
      with True show ?thesis by simp
    qed
  next
    case False
    with Suc.prems show ?thesis by simp
  qed
qed

lemma exponent_range: "- 1022 \<le> exponent a" "exponent a \<le> 1023"
  using binade_range [of "- 1022" 2045 a] by (simp_all add: exponent_def)

lemma exponent_upper: "exponent a < 1023 \<Longrightarrow> a < 2 powi (exponent a + 1)"
  using binade_upper [of 2045 "- 1022" a] by (simp add: exponent_def)

lemma exponent_lower: "- 1022 < exponent a \<Longrightarrow> 2 powi (exponent a) \<le> a"
  using binade_lower [of "- 1022" 2045 a] by (simp add: exponent_def)

lemma exponent_mono:
  assumes "a \<le> b"
  shows "exponent a \<le> exponent b"
proof (rule ccontr)
  assume "\<not> exponent a \<le> exponent b"
  then have lt: "exponent b < exponent a" by simp
  with exponent_range(1) [of b] have "- 1022 < exponent a" by simp
  then have "2 powi (exponent a) \<le> a" by (rule exponent_lower)
  moreover from lt exponent_range(2) [of a] have "exponent b < 1023" by simp
  then have "b < 2 powi (exponent b + 1)" by (rule exponent_upper)
  moreover from lt have "(2 :: rat) powi (exponent b + 1) \<le> 2 powi (exponent a)"
    by (intro power_int_increasing) simp_all
  ultimately show False using assms by linarith
qed

lemma exponent_eqI:
  assumes "- 1022 \<le> k" "k \<le> 1023"
    and lo: "- 1022 < k \<Longrightarrow> 2 powi k \<le> a"
    and hi: "k < 1023 \<Longrightarrow> a < 2 powi (k + 1)"
  shows "exponent a = k"
proof (rule ccontr)
  assume ne: "exponent a \<noteq> k"
  show False
  proof (cases "exponent a < k")
    case True
    with exponent_range(1) [of a] have "- 1022 < k" by simp
    then have "2 powi k \<le> a" by (rule lo)
    moreover from True assms(2) have "exponent a < 1023" by simp
    then have "a < 2 powi (exponent a + 1)" by (rule exponent_upper)
    moreover from True have "(2 :: rat) powi (exponent a + 1) \<le> 2 powi k"
      by (intro power_int_increasing) simp_all
    ultimately show False by linarith
  next
    case False
    with ne have gt: "k < exponent a" by simp
    with assms(1) have "- 1022 < exponent a" by simp
    then have "2 powi (exponent a) \<le> a" by (rule exponent_lower)
    moreover from gt exponent_range(2) [of a] have "k < 1023" by simp
    then have "a < 2 powi (k + 1)" by (rule hi)
    moreover from gt have "(2 :: rat) powi (k + 1) \<le> 2 powi (exponent a)"
      by (intro power_int_increasing) simp_all
    ultimately show False by linarith
  qed
qed

lemma ulp_pos: "0 < ulp a"
  by (simp add: ulp_def)

lemma nearest_double_le:
  assumes "exponent a < 1023"
  shows "nearest_double a \<le> 2 powi (exponent a + 1)"
proof -
  from assms have a: "a < 2 powi (exponent a + 1)" by (rule exponent_upper)
  have split: "(2 :: rat) powi (exponent a + 1) = of_int (2 ^ 53) * ulp a"
  proof -
    have "exponent a + 1 = 53 + (exponent a - 52)" by simp
    then have "(2 :: rat) powi (exponent a + 1) = 2 powi (53 + (exponent a - 52))" by (rule arg_cong)
    also have "\<dots> = 2 powi 53 * 2 powi (exponent a - 52)"
      by (rule power_int_add) simp
    finally show ?thesis by (simp add: ulp_def)
  qed
  from a have "a / ulp a \<le> of_int (2 ^ 53)"
    unfolding split using ulp_pos [of a] by (simp add: field_simps)
  then have "round_half_even (a / ulp a) \<le> 2 ^ 53" by (rule round_half_even_le)
  then have "(of_int (round_half_even (a / ulp a)) :: rat) \<le> of_int (2 ^ 53)"
    by (simp only: of_int_le_iff)
  then have "of_int (round_half_even (a / ulp a)) * ulp a \<le> of_int (2 ^ 53) * ulp a"
    using ulp_pos [of a] by (intro mult_right_mono) simp_all
  then show ?thesis unfolding split nearest_double_def .
qed

lemma nearest_double_ge:
  assumes "- 1022 < exponent a"
  shows "2 powi (exponent a) \<le> nearest_double a"
proof -
  from assms have a: "2 powi (exponent a) \<le> a" by (rule exponent_lower)
  have split: "(2 :: rat) powi (exponent a) = of_int (2 ^ 52) * ulp a"
  proof -
    have "(2 :: rat) powi (exponent a) = 2 powi (52 + (exponent a - 52))" by simp
    also have "\<dots> = 2 powi 52 * 2 powi (exponent a - 52)"
      by (rule power_int_add) simp
    finally show ?thesis by (simp add: ulp_def)
  qed
  from a have "of_int (2 ^ 52) \<le> a / ulp a"
    unfolding split using ulp_pos [of a] by (simp add: field_simps)
  then have "2 ^ 52 \<le> round_half_even (a / ulp a)" by (rule round_half_even_ge)
  then have "(of_int (2 ^ 52) :: rat) \<le> of_int (round_half_even (a / ulp a))"
    by (simp only: of_int_le_iff)
  then have "of_int (2 ^ 52) * ulp a \<le> of_int (round_half_even (a / ulp a)) * ulp a"
    using ulp_pos [of a] by (intro mult_right_mono) simp_all
  then show ?thesis unfolding split nearest_double_def .
qed

lemma nearest_double_mono:
  assumes "a \<le> b"
  shows "nearest_double a \<le> nearest_double b"
proof (cases "exponent a = exponent b")
  case True
  then have u: "ulp a = ulp b" by (simp add: ulp_def)
  from assms have "a / ulp b \<le> b / ulp b"
    using ulp_pos [of b] by (intro divide_right_mono) simp_all
  then have "round_half_even (a / ulp b) \<le> round_half_even (b / ulp b)"
    by (rule round_half_even_mono)
  then have "(of_int (round_half_even (a / ulp b)) :: rat) \<le> of_int (round_half_even (b / ulp b))"
    by (simp only: of_int_le_iff)
  then show ?thesis
    unfolding nearest_double_def u using ulp_pos [of b] by (intro mult_right_mono) simp_all
next
  case False
  with exponent_mono [OF assms] have lt: "exponent a < exponent b" by simp
  with exponent_range(2) [of b] have "exponent a < 1023" by simp
  then have "nearest_double a \<le> 2 powi (exponent a + 1)" by (rule nearest_double_le)
  also from lt have "(2 :: rat) powi (exponent a + 1) \<le> 2 powi (exponent b)"
    by (intro power_int_increasing) simp_all
  also from lt exponent_range(1) [of a] have "- 1022 < exponent b" by simp
  then have "2 powi (exponent b) \<le> nearest_double b" by (rule nearest_double_ge)
  finally show ?thesis .
qed

lemma nearest_double_zero: "nearest_double 0 = 0"
  by (simp add: nearest_double_def round_half_even_def)

lemma nearest_double_nonneg: "0 \<le> a \<Longrightarrow> 0 \<le> nearest_double a"
  using nearest_double_mono [of 0 a] by (simp add: nearest_double_zero)

lemma exponent_16: "exponent 16 = 4"
  by (rule exponent_eqI) simp_all

lemma nearest_double_16: "nearest_double 16 = 16"
  by (simp add: nearest_double_def ulp_def exponent_16 round_half_even_def)

lemma toNumber_zero: "toNumber (Fin 0) = Fin 0"
  by (simp add: nearest_double_zero)

lemma toNumber_mono:
  assumes "0 \<le> a" "a \<le> b"
  shows "lte (toNumber (Fin a)) (toNumber (Fin b))"
proof -
  from assms have b: "0 \<le> b" by simp
  have le: "nearest_double a \<le> nearest_double b" using assms(2) by (rule nearest_double_mono)
  have sa: "sgn a * nearest_double a = nearest_double a"
    using assms(1) by (cases "a = 0") (simp_all add: nearest_double_zero)
  have sb: "sgn b * nearest_double b = nearest_double b"
    using b by (cases "b = 0") (simp_all add: nearest_double_zero)
  have pb: "0 < b" if "2 ^ 1024 \<le> nearest_double b"
    using that b by (cases "b = 0") (simp_all add: nearest_double_zero)
  have pa: "0 < a" if "2 ^ 1024 \<le> nearest_double a"
    using that assms(1) by (cases "a = 0") (simp_all add: nearest_double_zero)
  show ?thesis
    using le assms b pa pb by (auto simp: Let_def sa sb lte_def)
qed

lemma toNumber_nonneg:
  assumes "0 \<le> q" and "nearest_double q = t" and "t < 2 ^ 1024"
  shows "toNumber (Fin q) = Fin t"
proof -
  have "sgn q * nearest_double q = nearest_double q"
    using assms(1) by (cases "q = 0") (simp_all add: nearest_double_zero)
  with assms show ?thesis by (simp add: Let_def)
qed

lemma toNumber_small:
  assumes "0 \<le> q" "q \<le> 16"
  shows "toNumber (Fin q) = Fin (nearest_double q)"
proof -
  have "nearest_double q \<le> 16"
    using nearest_double_mono [OF assms(2)] by (simp add: nearest_double_16)
  then have "nearest_double q < 2 ^ 1024" by simp
  with assms(1) show ?thesis by (intro toNumber_nonneg) simp_all
qed

text \<open>
  Two conversions that lose digits: a decimal just below 1.5, which is 1.5 as a double
  (and rounds to row 2, not 1), and a difference of prices too small for a double.
\<close>

lemma toNumber_example: "toNumber (Fin (149999999999999999999625 / 10 ^ 23)) = Fin (3 / 2)"
proof -
  let ?q = "149999999999999999999625 / 10 ^ 23 :: rat"
  have e: "exponent ?q = 0"
    by (rule exponent_eqI) simp_all
  have m: "round_half_even (?q / 2 powi (0 - 52)) = 6755399441055744"
    by (simp add: round_half_even_def Let_def)
  have "nearest_double ?q = 3 / 2"
    unfolding nearest_double_def ulp_def e m by simp
  then show ?thesis by (intro toNumber_nonneg) simp_all
qed

lemma toNumber_underflow: "toNumber (Fin (1 / 10 ^ 330)) = Fin 0"
proof -
  let ?q = "1 / 10 ^ 330 :: rat"
  have e: "exponent ?q = - 1022"
    by (rule exponent_eqI) simp_all
  have m: "round_half_even (?q / 2 powi (- 1022 - 52)) = 0"
    by (simp add: round_half_even_def Let_def)
  have "nearest_double ?q = 0"
    unfolding nearest_double_def ulp_def e m by simp
  then show ?thesis by (intro toNumber_nonneg) simp_all
qed

text \<open>
  The row of the depth 1.125 under the scale 8 / 6: the scaled depth is just
  below 1.5 as a decimal and 1.5 as a double, and its row is 2.
\<close>

lemma scaled_example:
  "scaled (dividedBy (Fin 8) (Fin 6)) (Fin 0) (Fin (9 / 8)) = Fin 2"
proof -
  have r: "dividedBy (Fin 8) (Fin 6) = Fin (133333333333333333333 / 10 ^ 20)"
    by (simp add: DECIMAL_PLACES_def round_half_up_def)
  have t: "times_bn (Fin (9 / 8)) (Fin (133333333333333333333 / 10 ^ 20)) =
      Fin (149999999999999999999625 / 10 ^ 23)"
    by simp
  show ?thesis
    unfolding scaled_def r t toNumber_example by (simp add: minus_bn_def)
qed

text \<open>
  Two orders whose prices differ by less than a double can hold keep their order, the
  dearer one first.
\<close>

lemma sort_by_price_underflow:
  "sort_by_price [sell_order ''s1'' (2 / 10 ^ 330) 1, sell_order ''s2'' (1 / 10 ^ 330) 1] =
     [sell_order ''s1'' (2 / 10 ^ 330) 1, sell_order ''s2'' (1 / 10 ^ 330) 1]"
proof -
  have "minus_bn (Fin (2 / 10 ^ 330)) (Fin (1 / 10 ^ 330)) = Fin (1 / 10 ^ 330)"
    by (simp add: minus_bn_def)
  then have "\<not> gt (toNumber (minus_bn (Fin (2 / 10 ^ 330)) (Fin (1 / 10 ^ 330)))) (Fin 0)"
    by (simp only: toNumber_underflow gt_Fin)
  then show ?thesis
    by (simp add: sort_by_price_def sell_order_def)
qed

section \<open>The renderer: the chart of a plottable book\<close>

lemma set_insert_by_price: "set (insert_by_price x xs) = insert x (set xs)"
  by (induction xs) auto

lemma length_insert_by_price: "length (insert_by_price x xs) = Suc (length xs)"
  by (induction xs) auto

lemma set_sort_by_price: "set (sort_by_price xs) = set xs"
  by (induction xs) (simp_all add: sort_by_price_def set_insert_by_price)

lemma length_sort_by_price: "length (sort_by_price xs) = length xs"
  by (induction xs) (simp_all add: sort_by_price_def length_insert_by_price)

lemma round_half_up_zero: "round_half_up dp 0 = 0"
  by (simp add: round_half_up_def)

lemma round_half_up_nonneg: "0 \<le> q \<Longrightarrow> 0 \<le> round_half_up dp q"
  using round_half_up_mono [of 0 q dp] by (simp add: round_half_up_zero)

lemma wf_order_cut:
  assumes "wf_order x" and "0 \<le> u"
  shows "wf_order (x\<lparr>balance := dividedBy (Fin u) (price x)\<rparr>)"
proof -
  from assms(1) obtain p b where p: "price x = Fin p" "0 < p" by (auto elim: wf_orderD)
  with assms(2) have "0 \<le> round_half_up DECIMAL_PLACES (u / p)"
    by (intro round_half_up_nonneg) simp
  with p show ?thesis by (simp add: wf_order_def)
qed

lemma filter_loop_wf:
  assumes "0 \<le> u"
  shows "\<forall>x \<in> set xs. wf_order x \<Longrightarrow> filter_loop (Fin u) c xs = (res, tr) \<Longrightarrow>
         \<forall>y \<in> set res. wf_order y"
proof (induction xs arbitrary: c res tr)
  case Nil
  then show ?case by simp
next
  case (Cons x xs)
  from Cons.prems(1) have wx: "wf_order x" and wxs: "\<forall>x \<in> set xs. wf_order x" by simp_all
  show ?case
  proof (cases "lte (plus_bn c (etherBalance x)) (Fin u)")
    case True
    obtain r t where rt: "filter_loop (Fin u) (plus_bn c (etherBalance x)) xs = (r, t)"
      by (cases "filter_loop (Fin u) (plus_bn c (etherBalance x)) xs")
    with True Cons.prems(2) have res: "res = x # r" by simp
    from Cons.IH [OF wxs rt] wx show ?thesis unfolding res by simp
  next
    case False
    with Cons.prems(2) have "res = [x\<lparr>balance := dividedBy (Fin u) (price x)\<rparr>]" by simp
    with wf_order_cut [OF wx assms] show ?thesis by simp
  qed
qed

lemma succeeds_Inr [simp]: "succeeds P (Inr x) = P x"
  by (simp add: succeeds_def)

lemma succeeds_Inl [simp]: "succeeds P (Inl e) = False"
  by (simp add: succeeds_def)

lemma succeedsE:
  assumes "succeeds P m"
  obtains x where "m = Inr x" "P x"
  using assms by (cases m) simp_all

lemma new_OrderBookChart_ok:
  assumes len: "2 \<le> length bs" and "plottable \<lparr>buys = bs, sells = ss\<rparr>"
    and ss: "1 \<le> length ss"
  shows "succeeds chart_ok (new_OrderBookChart bs ss)"
proof -
  from assms(2) have wfb: "\<forall>x \<in> set bs. wf_order x" and wfs: "\<forall>x \<in> set ss. wf_order x"
    and pos: "\<exists>x \<in> set (ss @ take 2 bs). lt (Fin 0) (balance x)"
    by (auto simp: plottable_def)
  let ?B = "sort_by_price ss"
  have wfB: "\<forall>x \<in> set ?B. wf_order x"
    using wfs by (simp add: set_sort_by_price)
  let ?d = "sum_list (map notional ?B)"
  have depth: "sum_bn (map etherBalance ?B) = Fin ?d"
    using wfB by (rule sum_bn_wf)
  have d0: "0 \<le> ?d * (3 / 2)"
    using sum_notional_nonneg [OF wfB] by simp
  obtain res tr where loop: "filter_loop (Fin (?d * (3 / 2))) (Fin 0) (drop 2 bs) = (res, tr)"
    by (cases "filter_loop (Fin (?d * (3 / 2))) (Fin 0) (drop 2 bs)")
  have "\<forall>x \<in> set (drop 2 bs). wf_order x"
    using wfb by (auto dest: in_set_dropD)
  from filter_loop_wf [OF d0 this loop] have wfres: "\<forall>y \<in> set res. wf_order y" .
  have "filterSellOrders (Fin ?d) bs = ([nth_opt bs 0, nth_opt bs 1] @ map Some res, tr)"
    unfolding filterSellOrders_def Let_def times_bn.simps loop by simp
  then have filt: "filterSellOrders (Fin ?d) bs = (map Some (take 2 bs @ res), tr)"
    unfolding first_two [OF len] .
  let ?S = "sort_by_price (take 2 bs @ res)"
  have wfS: "\<forall>x \<in> set ?S. wf_order x"
    using wfb wfres by (auto simp: set_sort_by_price dest: in_set_takeD)
  have lenS: "2 \<le> length ?S"
    using len by (simp add: length_sort_by_price)
  have lenB: "1 \<le> length ?B"
    using ss by (simp add: length_sort_by_price)
  from pos obtain x where x: "x \<in> set ss \<or> x \<in> set (take 2 bs)" and bx: "lt (Fin 0) (balance x)"
    by auto
  from x wfb wfs have "wf_order x" by (auto dest: in_set_takeD)
  then have "0 < notional x" using bx by (rule notional_pos)
  moreover from x have "x \<in> set (?B @ ?S)" by (auto simp: set_sort_by_price)
  ultimately have posn: "\<exists>x \<in> set (?B @ ?S). 0 < notional x" by blast
  have eq: "new_OrderBookChart bs ss =
      Inr \<lparr> chart_buys = ?B, chart_sells = ?S, chart_buyDepth = sum_bn (map etherBalance ?B),
            chart_sellDepth = sum_bn (map etherBalance ?S), chart_truncated = tr \<rparr>"
    unfolding new_OrderBookChart_def Let_def depth
    by (simp add: filt o_def)
  show ?thesis
    unfolding eq using wfB wfS lenS lenB posn
    by (auto simp: chart_ok_def)
qed

section \<open>The renderer: drawing stays on the canvas\<close>

lemma succeeds_then_e:
  assumes "succeeds P m" and "\<And>x. P x \<Longrightarrow> succeeds Q (f x)"
  shows "succeeds Q (then_e m f)"
  using assms by (cases m) (simp_all add: then_e_def)

lemma succeeds_for_loop:
  assumes "P s" and "\<And>i s. i \<in> set is \<Longrightarrow> P s \<Longrightarrow> succeeds P (body i s)"
  shows "succeeds P (for_loop is body s)"
  using assms
proof (induction "is" arbitrary: s)
  case Nil
  then show ?case by simp
next
  case (Cons i "is")
  have "succeeds P (body i s)" using Cons.prems by simp
  moreover have "succeeds P (for_loop is body s')" if "P s'" for s'
    using that Cons.prems(2) by (intro Cons.IH) simp_all
  ultimately show ?case by (simp add: succeeds_then_e)
qed

lemma succeeds_weaken: "succeeds P m \<Longrightarrow> (\<And>x. P x \<Longrightarrow> Q x) \<Longrightarrow> succeeds Q m"
  by (cases m) simp_all

lemma array_index_int:
  "array_index (Fin (of_int i)) n = (if 0 \<le> i \<and> i < int n then Some (nat i) else None)"
proof -
  have "(of_int i :: rat) < of_nat n \<longleftrightarrow> i < int n"
    by (metis of_int_less_iff of_int_of_nat_eq)
  then show ?thesis by simp
qed

lemma set_cell_row:
  assumes "q = of_int i" and "0 \<le> i" and "i < int (length g)"
  shows "succeeds (\<lambda>g'. length g' = length g) (set_cell (Fin q) j v g)"
  using assms by (simp add: set_cell_def array_index_int)

lemma js_range_members:
  assumes "y \<in> set (js_range (Fin (of_int a)) (Fin (of_int b)))"
  obtains i where "y = Fin (of_int i)" "a \<le> i" "i < b"
proof -
  from assms obtain k where k: "k < nat \<lceil>(of_int b :: rat) - of_int a\<rceil>"
    and y: "y = Fin (of_int a + of_nat k)"
    by auto
  have "\<lceil>(of_int b :: rat) - of_int a\<rceil> = b - a"
    by (metis ceiling_of_int of_int_diff)
  with k have "a + int k < b" by simp
  moreover have "y = Fin (of_int (a + int k))" using y by simp
  ultimately show ?thesis using that [of "a + int k"] by simp
qed

lemma Math_min_int: "Math_min (Fin (of_int a)) (Fin (of_int b)) = Fin (of_int (min a b))"
  by (simp add: Math_min_def min_def)

lemma Math_max_int: "Math_max (Fin (of_int a)) (Fin (of_int b)) = Fin (of_int (max a b))"
  by (simp add: Math_max_def max_def)

lemma draw_step_ok:
  assumes g: "length g = nat (R + 1)" and a: "0 \<le> a" "a \<le> R" and b: "0 \<le> b" "b \<le> R"
  shows "succeeds (\<lambda>g'. length g' = nat (R + 1))
           (draw_step col (Fin (of_int R)) j (Fin (of_int a)) (Fin (of_int b)) g)"
proof -
  let ?P = "\<lambda>g' :: canvas. length g' = nat (R + 1)"
  have cell: "succeeds ?P (set_cell (minus_bn (Fin (of_int R)) (Fin (of_int i))) j v g')"
    if "?P g'" "0 \<le> i" "i \<le> R" for i v g'
  proof -
    have "succeeds (\<lambda>h. length h = length g') (set_cell (Fin (of_int R - of_int i)) j v g')"
      using that by (intro set_cell_row [of _ "R - i"]) simp_all
    then show ?thesis using that(1) by (simp add: minus_bn_def)
  qed
  show ?thesis
  proof (cases "a = b")
    case True
    then show ?thesis using cell [OF g a] by (simp add: draw_step_def)
  next
    case False
    have loop: "succeeds ?P
        (for_loop (js_range (plus_bn (Math_min (Fin (of_int a)) (Fin (of_int b))) (Fin 1))
                     (Math_max (Fin (of_int a)) (Fin (of_int b))))
           (\<lambda>y. set_cell (minus_bn (Fin (of_int R)) y) j (Glyph col Vert)) g')"
      if g': "?P g'" for g'
    proof (rule succeeds_for_loop [where P = ?P, OF g'])
      fix y and s :: canvas
      assume y: "y \<in> set (js_range (plus_bn (Math_min (Fin (of_int a)) (Fin (of_int b))) (Fin 1))
                     (Math_max (Fin (of_int a)) (Fin (of_int b))))"
        and s: "?P s"
      have "plus_bn (Math_min (Fin (of_int a)) (Fin (of_int b))) (Fin 1) = Fin (of_int (min a b + 1))"
        by (simp add: Math_min_int)
      with y have "y \<in> set (js_range (Fin (of_int (min a b + 1))) (Fin (of_int (max a b))))"
        by (simp only: Math_max_int)
      then obtain i where i: "y = Fin (of_int i)" "min a b + 1 \<le> i" "i < max a b"
        by (rule js_range_members)
      with a b have "0 \<le> i" "i \<le> R" by simp_all
      with s show "succeeds ?P (set_cell (minus_bn (Fin (of_int R)) y) j (Glyph col Vert) s)"
        unfolding i(1) by (intro cell)
    qed
    show ?thesis
      unfolding draw_step_def using False
      by (auto intro!: succeeds_then_e [where P = ?P] cell [OF _ a] cell [OF _ b] g loop simp: Let_def)
  qed
qed

lemma foldl_minus_wf:
  "\<forall>x \<in> set xs. wf_order x \<Longrightarrow>
   foldl (\<lambda>result x. minus_bn result (etherBalance x)) (Fin a) xs =
     Fin (a - sum_list (map notional xs))"
  by (induction xs arbitrary: a) (simp_all add: etherBalance_wf minus_bn_def algebra_simps)

lemma sum_take_le:
  assumes "\<forall>x \<in> set xs. wf_order x"
  shows "sum_list (map notional (take n xs)) \<le> sum_list (map notional xs)"
proof -
  have "\<forall>x \<in> set (drop n xs). wf_order x"
    using assms by (auto dest: in_set_dropD)
  then have "0 \<le> sum_list (map notional (drop n xs))"
    by (rule sum_notional_nonneg)
  moreover have "sum_list (map notional xs) =
      sum_list (map notional (take n xs)) + sum_list (map notional (drop n xs))"
    by (metis append_take_drop_id map_append sum_list_append)
  ultimately show ?thesis by simp
qed

lemma sum_take_nonneg:
  assumes "\<forall>x \<in> set xs. wf_order x"
  shows "0 \<le> sum_list (map notional (take n xs))"
proof -
  have "\<forall>x \<in> set (take n xs). wf_order x"
    using assms by (auto dest: in_set_takeD)
  then show ?thesis by (rule sum_notional_nonneg)
qed

lemma buyDepthAtIndex_ok:
  assumes "chart_ok c" and "idx < length (chart_buys c)"
  obtains d where "buyDepthAtIndex c idx = Inr (Fin d)" "0 \<le> d"
    "d \<le> sum_list (map notional (chart_buys c))"
proof -
  from assms(1) have wf: "\<forall>x \<in> set (chart_buys c). wf_order x"
    and depth: "chart_buyDepth c = sum_bn (map etherBalance (chart_buys c))"
    by (auto simp: chart_ok_def)
  have wft: "\<forall>x \<in> set (take (Suc idx) (chart_buys c)). wf_order x"
    using wf by (auto dest: in_set_takeD)
  let ?d = "sum_list (map notional (chart_buys c)) -
            sum_list (map notional (take (Suc idx) (chart_buys c)))"
  have "buyDepthAtIndex c idx = Inr (Fin ?d)"
    using assms(2) by (simp add: buyDepthAtIndex_def depth sum_bn_wf [OF wf] foldl_minus_wf [OF wft])
  moreover have "0 \<le> ?d" using sum_take_le [OF wf, of "Suc idx"] by simp
  moreover have "?d \<le> sum_list (map notional (chart_buys c))"
    using sum_take_nonneg [OF wf, of "Suc idx"] by simp
  ultimately show ?thesis by (rule that)
qed

lemma sellDepthAtIndex_ok:
  assumes "chart_ok c" and "idx < length (chart_sells c)"
  obtains d where "sellDepthAtIndex c idx = Inr (Fin d)" "0 \<le> d"
    "d \<le> sum_list (map notional (chart_sells c))"
proof -
  from assms(1) have wf: "\<forall>x \<in> set (chart_sells c). wf_order x"
    by (auto simp: chart_ok_def)
  have wft: "\<forall>x \<in> set (take (Suc idx) (chart_sells c)). wf_order x"
    using wf by (auto dest: in_set_takeD)
  let ?d = "sum_list (map notional (take (Suc idx) (chart_sells c)))"
  have "sellDepthAtIndex c idx = Inr (Fin ?d)"
    using assms(2) foldl_plus_wf [OF wft, of 0]
    by (simp add: sellDepthAtIndex_def foldl_map)
  moreover have "0 \<le> ?d" using sum_take_nonneg [OF wf] .
  moreover have "?d \<le> sum_list (map notional (chart_sells c))"
    using sum_take_le [OF wf] .
  ultimately show ?thesis by (rule that)
qed

text \<open>The scale: 8 divided by a positive range is not negative and at most doubles 8.\<close>

lemma ratio_bounds:
  assumes "0 < m"
  shows "0 \<le> round_half_up DECIMAL_PLACES (8 / m)"
    and "m * round_half_up DECIMAL_PLACES (8 / m) \<le> 16"
proof -
  let ?k = "10 ^ DECIMAL_PLACES :: rat"
  let ?t = "8 / m * ?k"
  have t: "0 < ?t" using assms by simp
  show "0 \<le> round_half_up DECIMAL_PLACES (8 / m)"
    using assms by (intro round_half_up_nonneg) simp
  have fl: "of_int \<lfloor>?t + 1 / 2\<rfloor> \<le> 2 * ?t"
  proof (cases "?t < 1 / 2")
    case True
    then have "\<lfloor>?t + 1 / 2\<rfloor> = 0" using t by (intro floor_unique) simp_all
    with t show ?thesis by simp
  next
    case False
    have "of_int \<lfloor>?t + 1 / 2\<rfloor> \<le> ?t + 1 / 2" by (rule of_int_floor_le)
    moreover from False have "?t + 1 / 2 \<le> 2 * ?t" by linarith
    ultimately show ?thesis by (rule order_trans)
  qed
  have "round_half_up DECIMAL_PLACES (8 / m) = of_int \<lfloor>?t + 1 / 2\<rfloor> / ?k"
    using assms by (simp add: round_half_up_def)
  also have "\<dots> \<le> 2 * ?t / ?k"
    using fl by (intro divide_right_mono) simp_all
  also have "\<dots> = 16 / m" by simp
  finally have "round_half_up DECIMAL_PLACES (8 / m) \<le> 16 / m" .
  then have "m * round_half_up DECIMAL_PLACES (8 / m) \<le> m * (16 / m)"
    using assms by (intro mult_left_mono) simp_all
  then show "m * round_half_up DECIMAL_PLACES (8 / m) \<le> 16"
    using assms by simp
qed

text \<open>
  The row of a depth: the double nearest to the scaled depth, rounded. A depth from 0 to
  the range gets a row from 0 to the row of the range.
\<close>

lemma row_bounds:
  assumes "0 \<le> d" "d \<le> m" "0 \<le> r"
  shows "0 \<le> \<lfloor>nearest_double (d * r) + 1 / 2\<rfloor>"
    and "\<lfloor>nearest_double (d * r) + 1 / 2\<rfloor> \<le> \<lfloor>nearest_double (m * r) + 1 / 2\<rfloor>"
proof -
  from assms have "0 \<le> d * r" by simp
  then have "0 \<le> nearest_double (d * r)" by (rule nearest_double_nonneg)
  then show "0 \<le> \<lfloor>nearest_double (d * r) + 1 / 2\<rfloor>" by simp
  from assms have "d * r \<le> m * r" by (intro mult_right_mono)
  then have "nearest_double (d * r) \<le> nearest_double (m * r)" by (rule nearest_double_mono)
  then show "\<lfloor>nearest_double (d * r) + 1 / 2\<rfloor> \<le> \<lfloor>nearest_double (m * r) + 1 / 2\<rfloor>"
    by (intro floor_mono) simp
qed

lemma cell_ok:
  fixes g :: canvas
  assumes "length g = nat (R + 1)" "0 \<le> i" "i \<le> R"
  shows "succeeds (\<lambda>g' :: canvas. length g' = nat (R + 1))
           (set_cell (minus_bn (Fin (of_int R)) (Fin (of_int i))) j v g)"
proof -
  have "succeeds (\<lambda>h. length h = length g) (set_cell (Fin (of_int R - of_int i)) j v g)"
    using assms by (intro set_cell_row [of _ "R - i"]) simp_all
  then show ?thesis using assms(1) by (simp add: minus_bn_def)
qed

lemma scaled_Fin:
  assumes "0 \<le> d" "d \<le> m" "0 \<le> r" "m * r \<le> 16"
  shows "scaled (Fin r) (Fin 0) (Fin d) = Fin (of_int \<lfloor>nearest_double (d * r) + 1 / 2\<rfloor>)"
proof -
  from assms have "0 \<le> d * r" by simp
  moreover from assms have "d * r \<le> m * r" by (intro mult_right_mono)
  with assms(4) have "d * r \<le> 16" by simp
  ultimately have "toNumber (Fin (d * r)) = Fin (nearest_double (d * r))"
    by (rule toNumber_small)
  then show ?thesis
    unfolding scaled_def times_bn.simps by (simp add: minus_bn_def)
qed

lemma scaled_row:
  assumes "0 \<le> d" "d \<le> m" "0 \<le> r" "m * r \<le> 16"
  obtains y where "scaled (Fin r) (Fin 0) (Fin d) = Fin (of_int y)" "0 \<le> y"
    "y \<le> \<lfloor>nearest_double (m * r) + 1 / 2\<rfloor>"
  using scaled_Fin [OF assms] row_bounds [OF assms(1,2,3)] by blast

lemma draw_axis_ok:
  fixes g :: canvas
  assumes "length g = nat (R + 1)" "0 \<le> R"
  shows "succeeds (\<lambda>g' :: canvas. length g' = nat (R + 1))
           (draw_axis (Fin 0) (Fin (of_int R)) offset g)"
  unfolding draw_axis_def
proof (rule succeeds_for_loop [where P = "\<lambda>g' :: canvas. length g' = nat (R + 1)", OF assms(1)])
  fix y and s :: canvas
  assume y: "y \<in> set (js_range (Fin 0) (plus_bn (Fin (of_int R)) (Fin 1)))"
    and s: "length s = nat (R + 1)"
  have "plus_bn (Fin (of_int R)) (Fin 1) = Fin (of_int (R + 1))" "Fin 0 = Fin (of_int 0)"
    by simp_all
  with y have "y \<in> set (js_range (Fin (of_int 0)) (Fin (of_int (R + 1))))"
    by (simp only:)
  then obtain i where i: "y = Fin (of_int i)" "0 \<le> i" "i < R + 1"
    by (rule js_range_members)
  have row: "minus_bn y (Fin 0) = minus_bn (Fin (of_int R)) (Fin (of_int (R - i)))"
    unfolding i(1) by (simp add: minus_bn_def)
  have ok: "succeeds (\<lambda>g' :: canvas. length g' = nat (R + 1))
      (set_cell (minus_bn y (Fin 0)) k v h)" if "length h = nat (R + 1)" for k v and h :: canvas
    unfolding row using that i by (intro cell_ok) simp_all
  show "succeeds (\<lambda>g' :: canvas. length g' = nat (R + 1))
      (then_e (set_cell (minus_bn y (Fin 0)) 0 (Label (minus_bn y (Fin 0))) s)
         (set_cell (minus_bn y (Fin 0)) (offset - 1) (Axis Tee)))"
    by (intro succeeds_then_e [where P = "\<lambda>g' :: canvas. length g' = nat (R + 1)"] ok s)
qed

lemma draw_buys_ok:
  fixes g :: canvas
  assumes c: "chart_ok c" and g: "length g = nat (\<lfloor>nearest_double (m * r) + 1 / 2\<rfloor> + 1)"
    and r: "0 \<le> r" and m: "sum_list (map notional (chart_buys c)) \<le> m"
    and mr: "m * r \<le> 16"
  shows "succeeds (\<lambda>g' :: canvas. length g' = nat (\<lfloor>nearest_double (m * r) + 1 / 2\<rfloor> + 1))
           (draw_buys c (Fin r) (Fin 0) (Fin (of_int \<lfloor>nearest_double (m * r) + 1 / 2\<rfloor>)) offset g)"
proof -
  let ?R = "\<lfloor>nearest_double (m * r) + 1 / 2\<rfloor>"
  let ?P = "\<lambda>g' :: canvas. length g' = nat (?R + 1)"
  from c have len: "0 < length (chart_buys c)" by (auto simp: chart_ok_def)
  have depth: "\<exists>d y. buyDepthAtIndex c idx = Inr d \<and> scaled (Fin r) (Fin 0) d = Fin (of_int y) \<and>
      0 \<le> y \<and> y \<le> ?R"
    if "idx < length (chart_buys c)" for idx
  proof -
    from buyDepthAtIndex_ok [OF c that] obtain d where d: "buyDepthAtIndex c idx = Inr (Fin d)"
      "0 \<le> d" "d \<le> sum_list (map notional (chart_buys c))" .
    with m have "d \<le> m" by simp
    from scaled_row [OF d(2) this r mr] obtain y where
      "scaled (Fin r) (Fin 0) (Fin d) = Fin (of_int y)" "0 \<le> y" "y \<le> ?R" .
    with d(1) show ?thesis by blast
  qed
  from depth [OF len] obtain d0 y0 where d0: "buyDepthAtIndex c 0 = Inr d0"
    "scaled (Fin r) (Fin 0) d0 = Fin (of_int y0)" "0 \<le> y0" "y0 \<le> ?R" by blast
  have first: "succeeds ?P (set_cell (minus_bn (Fin (of_int ?R)) (scaled (Fin r) (Fin 0) d0))
      (offset - 1) (Glyph green Cross) g)"
    unfolding d0(2) using g d0(3,4) by (rule cell_ok)
  have step: "succeeds ?P
      (then_e (buyDepthAtIndex c (x + 0)) (\<lambda>d0.
       then_e (buyDepthAtIndex c (x + 1)) (\<lambda>d1.
       draw_step green (Fin (of_int ?R)) (x + offset)
         (scaled (Fin r) (Fin 0) d0) (scaled (Fin r) (Fin 0) d1) s)))"
    if x: "x \<in> set [0 ..< length (chart_buys c) - 1]" and s: "?P s" for x and s :: canvas
  proof -
    from x have x0: "x < length (chart_buys c)" and x1: "Suc x < length (chart_buys c)" by auto
    from depth [OF x0] obtain a ya where a: "buyDepthAtIndex c x = Inr a"
      "scaled (Fin r) (Fin 0) a = Fin (of_int ya)" "0 \<le> ya" "ya \<le> ?R" by blast
    from depth [OF x1] obtain b yb where b: "buyDepthAtIndex c (Suc x) = Inr b"
      "scaled (Fin r) (Fin 0) b = Fin (of_int yb)" "0 \<le> yb" "yb \<le> ?R" by blast
    show ?thesis
      using draw_step_ok [OF s a(3,4) b(3,4)]
      by (simp add: a(1,2) b(1,2) then_e_def)
  qed
  have e: "then_e (Inr d0) f = f d0" for f :: "BigNumber \<Rightarrow> error + canvas"
    by (simp add: then_e_def)
  show ?thesis
    unfolding draw_buys_def d0(1) e
  proof (rule succeeds_then_e [where P = ?P, OF first])
    fix h :: canvas
    assume "?P h"
    then show "succeeds ?P
        (for_loop [0 ..< length (chart_buys c) - 1]
           (\<lambda>x result.
              then_e (buyDepthAtIndex c (x + 0)) (\<lambda>d0.
              then_e (buyDepthAtIndex c (x + 1)) (\<lambda>d1.
              draw_step green (Fin (of_int ?R)) (x + offset)
                (scaled (Fin r) (Fin 0) d0) (scaled (Fin r) (Fin 0) d1) result))) h)"
      by (rule succeeds_for_loop [where P = ?P]) (rule step)
  qed
qed


lemma then_e_Inr: "then_e (Inr x) f = f x"
  by (simp add: then_e_def)

lemma rows_ok:
  fixes g :: canvas
  assumes "length g = nat (R + 1)" "0 \<le> R"
  shows "succeeds (\<lambda>g' :: canvas. length g' = nat (R + 1)) (set_cell (Fin (of_int R)) j v g)"
proof -
  have "succeeds (\<lambda>h. length h = length g) (set_cell (Fin (of_int R)) j v g)"
    using assms by (intro set_cell_row [of _ R]) simp_all
  then show ?thesis using assms(1) by simp
qed

lemma draw_sells_ok:
  fixes g :: canvas
  assumes c: "chart_ok c" and g: "length g = nat (\<lfloor>nearest_double (m * r) + 1 / 2\<rfloor> + 1)"
    and r: "0 \<le> r" and m: "sum_list (map notional (chart_sells c)) \<le> m" and m0: "0 \<le> m"
    and mr: "m * r \<le> 16"
  shows "succeeds (\<lambda>g' :: canvas. length g' = nat (\<lfloor>nearest_double (m * r) + 1 / 2\<rfloor> + 1))
           (draw_sells c (Fin r) (Fin 0) (Fin (of_int \<lfloor>nearest_double (m * r) + 1 / 2\<rfloor>)) offset g)"
proof -
  let ?R = "\<lfloor>nearest_double (m * r) + 1 / 2\<rfloor>"
  let ?P = "\<lambda>g' :: canvas. length g' = nat (?R + 1)"
  from c have len: "0 < length (chart_sells c)" "Suc 0 < length (chart_sells c)"
    by (auto simp: chart_ok_def)
  have R0: "0 \<le> ?R" using row_bounds(1) [OF m0 order_refl r] .
  have depth: "\<exists>d y. sellDepthAtIndex c idx = Inr d \<and> scaled (Fin r) (Fin 0) d = Fin (of_int y) \<and>
      0 \<le> y \<and> y \<le> ?R"
    if "idx < length (chart_sells c)" for idx
  proof -
    from sellDepthAtIndex_ok [OF c that] obtain d where d: "sellDepthAtIndex c idx = Inr (Fin d)"
      "0 \<le> d" "d \<le> sum_list (map notional (chart_sells c))" .
    with m have "d \<le> m" by simp
    from scaled_row [OF d(2) this r mr] obtain y where
      "scaled (Fin r) (Fin 0) (Fin d) = Fin (of_int y)" "0 \<le> y" "y \<le> ?R" .
    with d(1) show ?thesis by blast
  qed
  from depth [OF len(1)] obtain d0 y0 where d0: "sellDepthAtIndex c 0 = Inr d0"
    "scaled (Fin r) (Fin 0) d0 = Fin (of_int y0)" "0 \<le> y0" "y0 \<le> ?R" by blast
  from depth [OF len(2)] obtain d1 y1 where d1: "sellDepthAtIndex c 1 = Inr d1"
    "scaled (Fin r) (Fin 0) d1 = Fin (of_int y1)" "0 \<le> y1" "y1 \<le> ?R" by simp blast
  have rise: "succeeds ?P
      (then_e (set_cell (Fin (of_int ?R)) j (Glyph red ArcUpLeft) g) (\<lambda>result.
       then_e (set_cell (minus_bn (Fin (of_int ?R)) (Fin (of_int y1))) j (Glyph red ArcDownRight) result)
         (for_loop (js_range (Fin 1) (Fin (of_int y1)))
            (\<lambda>y. set_cell (minus_bn (Fin (of_int ?R)) y) j (Glyph red Vert)))))" for j
  proof (rule succeeds_then_e [where P = ?P, OF rows_ok [OF g R0]])
    fix h :: canvas
    assume h: "?P h"
    show "succeeds ?P
        (then_e (set_cell (minus_bn (Fin (of_int ?R)) (Fin (of_int y1))) j (Glyph red ArcDownRight) h)
           (for_loop (js_range (Fin 1) (Fin (of_int y1)))
              (\<lambda>y. set_cell (minus_bn (Fin (of_int ?R)) y) j (Glyph red Vert))))"
    proof (rule succeeds_then_e [where P = ?P, OF cell_ok [OF h d1(3,4)]])
      fix h' :: canvas
      assume h': "?P h'"
      show "succeeds ?P (for_loop (js_range (Fin 1) (Fin (of_int y1)))
              (\<lambda>y. set_cell (minus_bn (Fin (of_int ?R)) y) j (Glyph red Vert)) h')"
      proof (rule succeeds_for_loop [where P = ?P, OF h'])
        fix y and s :: canvas
        assume y: "y \<in> set (js_range (Fin 1) (Fin (of_int y1)))" and s: "?P s"
        have "Fin 1 = Fin (of_int 1)" by simp
        with y have "y \<in> set (js_range (Fin (of_int 1)) (Fin (of_int y1)))"
          by (simp only:)
        then obtain i where i: "y = Fin (of_int i)" "1 \<le> i" "i < y1"
          by (rule js_range_members)
        with d1(4) have "0 \<le> i" "i \<le> ?R" by simp_all
        with s show "succeeds ?P (set_cell (minus_bn (Fin (of_int ?R)) y) j (Glyph red Vert) s)"
          unfolding i(1) by (intro cell_ok)
      qed
    qed
  qed
  have first: "succeeds ?P (draw_first_sell c (Fin r) (Fin 0) (Fin (of_int ?R)) offset g)"
  proof (cases "y1 = y0")
    case True
    then show ?thesis
      unfolding draw_first_sell_def d0(1) d1(1) then_e_Inr Let_def d0(2) d1(2)
      using rows_ok [OF g R0] by simp
  next
    case False
    then show ?thesis
      unfolding draw_first_sell_def d0(1) d1(1) then_e_Inr Let_def d0(2) d1(2)
      using rise by simp
  qed
  have step: "succeeds ?P
      (then_e (sellDepthAtIndex c (x + 0)) (\<lambda>d0.
       then_e (sellDepthAtIndex c (x + 1)) (\<lambda>d1.
       draw_step red (Fin (of_int ?R)) (x + offset + length (chart_buys c) - 1)
         (scaled (Fin r) (Fin 0) d0) (scaled (Fin r) (Fin 0) d1) s)))"
    if x: "x \<in> set [1 ..< length (chart_sells c) - 1]" and s: "?P s" for x and s :: canvas
  proof -
    from x have x0: "x < length (chart_sells c)" and x1: "Suc x < length (chart_sells c)" by auto
    from depth [OF x0] obtain a ya where a: "sellDepthAtIndex c x = Inr a"
      "scaled (Fin r) (Fin 0) a = Fin (of_int ya)" "0 \<le> ya" "ya \<le> ?R" by blast
    from depth [OF x1] obtain b yb where b: "sellDepthAtIndex c (Suc x) = Inr b"
      "scaled (Fin r) (Fin 0) b = Fin (of_int yb)" "0 \<le> yb" "yb \<le> ?R" by blast
    show ?thesis
      using draw_step_ok [OF s a(3,4) b(3,4)]
      by (simp add: a(1,2) b(1,2) then_e_def)
  qed
  show ?thesis
    unfolding draw_sells_def
  proof (rule succeeds_then_e [where P = ?P, OF first])
    fix h :: canvas
    assume "?P h"
    then show "succeeds ?P
        (for_loop [1 ..< length (chart_sells c) - 1]
           (\<lambda>x result.
              then_e (sellDepthAtIndex c (x + 0)) (\<lambda>d0.
              then_e (sellDepthAtIndex c (x + 1)) (\<lambda>d1.
              draw_step red (Fin (of_int ?R)) (x + offset + length (chart_buys c) - 1)
                (scaled (Fin r) (Fin 0) d0) (scaled (Fin r) (Fin 0) d1) result))) h)"
      by (rule succeeds_for_loop [where P = ?P]) (rule step)
  qed
qed

lemma plot_ok:
  assumes c: "chart_ok c"
  shows "succeeds (\<lambda>g :: canvas. g \<noteq> []) (plot c)"
proof -
  let ?B = "sum_list (map notional (chart_buys c))"
  let ?S = "sum_list (map notional (chart_sells c))"
  let ?M = "if ?S < ?B then ?B else ?S"
  let ?r = "round_half_up DECIMAL_PLACES (8 / ?M)"
  let ?R = "\<lfloor>nearest_double (?M * ?r) + 1 / 2\<rfloor>"
  let ?w = "length (chart_buys c) + length (chart_sells c) + 3"
  let ?P = "\<lambda>g' :: canvas. length g' = nat (?R + 1)"
  from c have wfB: "\<forall>x \<in> set (chart_buys c). wf_order x"
    and wfS: "\<forall>x \<in> set (chart_sells c). wf_order x"
    and dB: "chart_buyDepth c = sum_bn (map etherBalance (chart_buys c))"
    and dS: "chart_sellDepth c = sum_bn (map etherBalance (chart_sells c))"
    and pos: "\<exists>x \<in> set (chart_buys c @ chart_sells c). 0 < notional x"
    by (auto simp: chart_ok_def)
  have depthB: "chart_buyDepth c = Fin ?B" unfolding dB using wfB by (rule sum_bn_wf)
  have depthS: "chart_sellDepth c = Fin ?S" unfolding dS using wfS by (rule sum_bn_wf)
  have B0: "0 \<le> ?B" and S0: "0 \<le> ?S"
    using wfB wfS by (simp_all add: sum_notional_nonneg)
  from pos obtain x where "x \<in> set (chart_buys c) \<or> x \<in> set (chart_sells c)" "0 < notional x"
    by auto
  then have "0 < ?B \<or> 0 < ?S"
    using notional_le_sum [OF wfB, of x] notional_le_sum [OF wfS, of x] by fastforce
  then have M: "0 < ?M" using B0 S0 by auto
  have BM: "?B \<le> ?M" and SM: "?S \<le> ?M" by simp_all
  note rb = ratio_bounds [OF M]
  have Mr0: "0 \<le> ?M * ?r" using M rb(1) by simp
  have tn: "toNumber (Fin (?M * ?r)) = Fin (nearest_double (?M * ?r))"
    using Mr0 rb(2) by (rule toNumber_small)
  have R0: "0 \<le> ?R" using nearest_double_nonneg [OF Mr0] by simp
  have "nearest_double (?M * ?r) \<le> 16"
    using nearest_double_mono [OF rb(2)] by (simp add: nearest_double_16)
  then have "nearest_double (?M * ?r) + 1 / 2 < 17" by simp
  then have R16: "?R < 17" by (simp add: floor_less_iff)
  have maxd: "(if gt (chart_buyDepth c) (chart_sellDepth c)
               then chart_buyDepth c else chart_sellDepth c) = Fin ?M"
    by (simp add: depthB depthS)
  have ratio: "dividedBy (Fin 8) (Fin ?M) = Fin ?r"
    using M by simp
  have "\<lfloor>1 / 2 :: rat\<rfloor> = 0" by (rule floor_unique) simp_all
  then have min2: "Math_round (toNumber (times_bn (Fin 0) (Fin ?r))) = Fin 0"
    unfolding times_bn.simps mult_zero_left toNumber_zero by simp
  have max2: "Math_round (toNumber (times_bn (Fin ?M) (Fin ?r))) = Fin (of_int ?R)"
    unfolding times_bn.simps tn by simp
  have rows: "Math_abs (minus_bn (Fin (of_int ?R)) (Fin 0)) = Fin (of_int ?R)"
    using R0 by (simp add: minus_bn_def)
  have canvas: "new_canvas (Fin (of_int ?R)) ?w = Some (replicate (nat (?R + 1)) (replicate ?w Blank))"
  proof -
    have "plus_bn (Fin (of_int ?R)) (Fin 1) = Fin (of_int (?R + 1))" by simp
    moreover have "(of_int (?R + 1) :: rat) \<le> 2 ^ 32 - 1"
    proof -
      from R16 have "?R + 1 \<le> 17" by simp
      then have "(of_int (?R + 1) :: rat) \<le> of_int 17" by (simp only: of_int_le_iff)
      then show ?thesis by simp
    qed
    moreover have "(0 :: rat) \<le> of_int (?R + 1)" using R0 by simp
    ultimately show ?thesis
      unfolding new_canvas_def by (simp del: of_int_add)
  qed
  let ?g0 = "replicate (nat (?R + 1)) (replicate ?w Blank)"
  have g0: "?P ?g0" by simp
  have eq: "plot c =
      then_e (draw_axis (Fin 0) (Fin (of_int ?R)) 3 ?g0) (\<lambda>result.
      then_e (draw_buys c (Fin ?r) (Fin 0) (Fin (of_int ?R)) 3 result) (\<lambda>result.
      then_e (draw_sells c (Fin ?r) (Fin 0) (Fin (of_int ?R)) 3 result) (\<lambda>result.
      if chart_truncated c then set_cell (Fin 0) ?w (Glyph red Arrow) result
      else Inr result)))"
    unfolding plot_def Let_def maxd ratio min2 max2 rows canvas option.case ..
  have last: "succeeds (\<lambda>g :: canvas. g \<noteq> [])
      (if chart_truncated c then set_cell (Fin 0) ?w (Glyph red Arrow) h else Inr h)"
    if h: "?P h" for h :: canvas
  proof -
    from h R0 have len: "0 < length h" by simp
    then have ne: "h \<noteq> []" by auto
    have "succeeds (\<lambda>g. length g = length h) (set_cell (Fin 0) ?w (Glyph red Arrow) h)"
      using len by (intro set_cell_row [of _ 0]) simp_all
    then have "succeeds (\<lambda>g :: canvas. g \<noteq> []) (set_cell (Fin 0) ?w (Glyph red Arrow) h)"
    proof (rule succeeds_weaken)
      fix g :: canvas
      assume "length g = length h"
      with len show "g \<noteq> []" by auto
    qed
    with ne show ?thesis by simp
  qed
  show ?thesis
    unfolding eq
  proof (rule succeeds_then_e [where P = ?P, OF draw_axis_ok [OF g0 R0]])
    fix h1 :: canvas
    assume h1: "?P h1"
    show "succeeds (\<lambda>g :: canvas. g \<noteq> [])
        (then_e (draw_buys c (Fin ?r) (Fin 0) (Fin (of_int ?R)) 3 h1) (\<lambda>result.
         then_e (draw_sells c (Fin ?r) (Fin 0) (Fin (of_int ?R)) 3 result) (\<lambda>result.
         if chart_truncated c then set_cell (Fin 0) ?w (Glyph red Arrow) result
         else Inr result)))"
    proof (rule succeeds_then_e [where P = ?P, OF draw_buys_ok [OF c h1 rb(1) BM rb(2)]])
      fix h2 :: canvas
      assume h2: "?P h2"
      show "succeeds (\<lambda>g :: canvas. g \<noteq> [])
          (then_e (draw_sells c (Fin ?r) (Fin 0) (Fin (of_int ?R)) 3 h2) (\<lambda>result.
           if chart_truncated c then set_cell (Fin 0) ?w (Glyph red Arrow) result
           else Inr result))"
        using M by (intro succeeds_then_e [where P = ?P, OF draw_sells_ok [OF c h2 rb(1) SM _ rb(2)]] last) simp_all
    qed
  qed
qed

lemma print_ok:
  assumes "2 \<le> length (buys ob)" and "1 \<le> length (sells ob)" and "plottable ob"
  shows "succeeds (\<lambda>g :: canvas. g \<noteq> []) (print ob)"
proof -
  from assms(3) have "plottable \<lparr>buys = buys ob, sells = sells ob\<rparr>"
    by (simp add: plottable_def)
  from new_OrderBookChart_ok [OF assms(1) this assms(2)]
  show ?thesis
    unfolding print_def by (rule succeeds_then_e) (rule plot_ok)
qed

section \<open>The renderer and the cycle, end to end\<close>

text \<open>
  Claim C9, amended. The renderer (construction of the chart and \<open>plot\<close>) completes
  without throwing and returns a text block of at least one row for every plottable book
  with at least two orders on its buy side (the side the outlier filter reads its first
  two orders from) and at least one order on its sell side: orders with finite positive
  prices and finite balances that are not negative, one of the sell orders or of the
  first two buy orders having a positive balance.
\<close>

theorem print_completes:
  assumes "2 \<le> length (buys ob)" and "1 \<le> length (sells ob)" and "plottable ob"
  shows "\<exists>canvas. print ob = Inr canvas \<and> canvas \<noteq> []"
  using print_ok [OF assms] by (auto elim: succeedsE)

text \<open>
  Claim C9, as stated: the renderer never throws on well-formed non-empty input, in
  particular with exactly one order per side. With one buy order the filter pushes
  \<open>orders[1]\<close>, which is \<open>undefined\<close>, and the constructor throws a \<open>TypeError\<close> when
  it reads its balance. With two orders per side, all of balance 0, the range is 0, the
  scale is \<open>Infinity\<close>, the number of rows is \<open>NaN\<close>, and allocating the canvas throws
  a \<open>RangeError\<close>.
\<close>

theorem print_throws_counterexample:
  "print \<lparr>buys = [buy_order ''b1'' 1 3], sells = [sell_order ''s1'' 2 1]\<rparr> = Inl TypeError \<and>
   wf_order (buy_order ''b1'' 1 3) \<and> wf_order (sell_order ''s1'' 2 1) \<and>
   print \<lparr>buys = [buy_order ''b1'' 1 0, buy_order ''b2'' 1 0],
          sells = [sell_order ''s1'' 2 0, sell_order ''s2'' 2 0]\<rparr> = Inl RangeError"
proof -
  have one: "print \<lparr>buys = [buy_order ''b1'' 1 3], sells = [sell_order ''s1'' 2 1]\<rparr> = Inl TypeError"
    by (simp add: print_def new_OrderBookChart_def filterSellOrders_def nth_opt_def then_e_def
        Let_def)
  have chart: "new_OrderBookChart [buy_order ''b1'' 1 0, buy_order ''b2'' 1 0]
      [sell_order ''s1'' 2 0, sell_order ''s2'' 2 0] =
    Inr \<lparr> chart_buys = [sell_order ''s1'' 2 0, sell_order ''s2'' 2 0],
          chart_sells = [buy_order ''b1'' 1 0, buy_order ''b2'' 1 0],
          chart_buyDepth = Fin 0, chart_sellDepth = Fin 0, chart_truncated = False \<rparr>"
    by (simp add: new_OrderBookChart_def filterSellOrders_def nth_opt_def Let_def
        sort_by_price_def sum_bn_def etherBalance_def buy_order_def sell_order_def
        minus_bn_def gt_def nearest_double_zero)
  have "plot \<lparr> chart_buys = [sell_order ''s1'' 2 0, sell_order ''s2'' 2 0],
          chart_sells = [buy_order ''b1'' 1 0, buy_order ''b2'' 1 0],
          chart_buyDepth = Fin 0, chart_sellDepth = Fin 0, chart_truncated = False \<rparr> =
        Inl RangeError"
    by (simp add: plot_def Let_def gt_def new_canvas_def minus_bn_def)
  with chart have zero: "print \<lparr>buys = [buy_order ''b1'' 1 0, buy_order ''b2'' 1 0],
          sells = [sell_order ''s1'' 2 0, sell_order ''s2'' 2 0]\<rparr> = Inl RangeError"
    by (simp add: print_def then_e_def)
  have "wf_order (buy_order ''b1'' 1 3)" "wf_order (sell_order ''s1'' 2 1)"
    by (simp_all add: wf_order_def buy_order_def sell_order_def)
  with one zero show ?thesis by simp
qed

theorem print_completes_witness:
  "2 \<le> length (buys (orderbook (saturn (buy_heavy_bot 100 1)))) \<and>
   1 \<le> length (sells (orderbook (saturn (buy_heavy_bot 100 1)))) \<and>
   plottable (orderbook (saturn (buy_heavy_bot 100 1))) \<and>
   (\<exists>canvas. print (orderbook (saturn (buy_heavy_bot 100 1))) = Inr canvas \<and> canvas \<noteq> [])"
proof -
  have l: "2 \<le> length (buys (orderbook (saturn (buy_heavy_bot 100 1))))"
    "1 \<le> length (sells (orderbook (saturn (buy_heavy_bot 100 1))))"
    by (simp_all add: example_defs)
  from print_completes [OF l example_plottable(1)] l example_plottable(1) [of 100 1]
  show ?thesis by simp
qed

text \<open>
  Claim C1, amended. For every plottable order book with at least 2 orders per side
  (orders with finite positive prices and finite balances that are not negative, one of
  the sell orders or of the first two buy orders having a positive balance), one
  invocation of \<open>getActions\<close> returns the arbitrage trades if there are any, else the
  cleanup cancellations if there are any, else the new quotes (possibly none); the
  returned list is all \<open>Trade\<close>, all \<open>CancelOrder\<close>, all \<open>NewOrder\<close>, or empty.
\<close>

theorem getActions_priority:
  assumes "2 \<le> length (buys (orderbook (saturn mm)))"
    and "2 \<le> length (sells (orderbook (saturn mm)))"
    and "plottable (orderbook (saturn mm))"
  shows "\<exists>acts. getActions mm = Inr acts \<and>
           acts = (if checkArbOpportunity mm \<noteq> [] then checkArbOpportunity mm
                   else if cleanupOrders mm \<noteq> [] then cleanupOrders mm
                   else newOrders mm) \<and>
           (list_all isTrade acts \<or> list_all isCancelOrder acts \<or> list_all isNewOrder acts)"
proof -
  from assms(2) have "1 \<le> length (sells (orderbook (saturn mm)))" by simp
  from print_ok [OF assms(1) this assms(3)]
  obtain canvas where p: "printMarketHealth mm = Inr canvas"
    by (auto simp: printMarketHealth_def plotOrderBook_def elim: succeedsE)
  have guard: "ensureValidOrderBook mm = Inr ()"
    using assms(1,2) by (simp add: ensureValidOrderBook_def Let_def)
  have run: "getActions mm =
      Inr (if checkArbOpportunity mm \<noteq> [] then checkArbOpportunity mm
           else if cleanupOrders mm \<noteq> [] then cleanupOrders mm
           else newOrders mm)"
    by (simp add: getActions_def guard p then_e_Inr Let_def)
  show ?thesis
    unfolding run
    using checkArbOpportunity_kinds [of mm] cleanupOrders_kinds [of mm] newOrders_kinds [of mm]
    by simp
qed

text \<open>
  Claim C1, as stated: for every order book with at least 2 orders per side the cycle
  returns an action list. On a book of two orders per side, all of balance 0, the
  diagnostic plot that \<open>getActions\<close> makes before deciding throws a \<open>RangeError\<close>, and
  the cycle returns nothing.
\<close>

theorem getActions_throws_counterexample:
  "2 \<le> length (buys (orderbook (saturn empty_depth_bot))) \<and>
   2 \<le> length (sells (orderbook (saturn empty_depth_bot))) \<and>
   getActions empty_depth_bot = Inl RangeError"
proof -
  have ob: "orderbook (saturn empty_depth_bot) =
      \<lparr>buys = [buy_order ''b1'' 1 0, buy_order ''b2'' 1 0],
        sells = [sell_order ''s1'' 2 0, sell_order ''s2'' 2 0]\<rparr>"
    by (simp add: empty_depth_bot_def example_bot_def)
  have chart: "new_OrderBookChart [buy_order ''b1'' 1 0, buy_order ''b2'' 1 0]
      [sell_order ''s1'' 2 0, sell_order ''s2'' 2 0] =
    Inr \<lparr> chart_buys = [sell_order ''s1'' 2 0, sell_order ''s2'' 2 0],
          chart_sells = [buy_order ''b1'' 1 0, buy_order ''b2'' 1 0],
          chart_buyDepth = Fin 0, chart_sellDepth = Fin 0, chart_truncated = False \<rparr>"
    by (simp add: new_OrderBookChart_def filterSellOrders_def nth_opt_def Let_def
        sort_by_price_def sum_bn_def etherBalance_def buy_order_def sell_order_def
        minus_bn_def gt_def nearest_double_zero)
  have "plot \<lparr> chart_buys = [sell_order ''s1'' 2 0, sell_order ''s2'' 2 0],
          chart_sells = [buy_order ''b1'' 1 0, buy_order ''b2'' 1 0],
          chart_buyDepth = Fin 0, chart_sellDepth = Fin 0, chart_truncated = False \<rparr> =
        Inl RangeError"
    by (simp add: plot_def Let_def gt_def new_canvas_def minus_bn_def)
  with chart have "printMarketHealth empty_depth_bot = Inl RangeError"
    by (simp add: printMarketHealth_def plotOrderBook_def ob print_def then_e_def)
  moreover have "ensureValidOrderBook empty_depth_bot = Inr ()"
    by (simp add: ensureValidOrderBook_def ob)
  ultimately show ?thesis
    by (simp add: getActions_def then_e_def ob)
qed

theorem getActions_priority_witness:
  "2 \<le> length (buys (orderbook (saturn (buy_heavy_bot 100 (1 / 2))))) \<and>
   2 \<le> length (sells (orderbook (saturn (buy_heavy_bot 100 (1 / 2))))) \<and>
   plottable (orderbook (saturn (buy_heavy_bot 100 (1 / 2)))) \<and>
   checkArbOpportunity (buy_heavy_bot 100 (1 / 2)) = [] \<and>
   cleanupOrders (buy_heavy_bot 100 (1 / 2)) = [] \<and>
   getActions (buy_heavy_bot 100 (1 / 2)) = Inr [NewOrder ''ETH'' buy (Fin 9) (Fin (11 / 10))]"
proof -
  let ?bot = "buy_heavy_bot 100 (1 / 2)"
  have l: "2 \<le> length (buys (orderbook (saturn ?bot)))"
    "2 \<le> length (sells (orderbook (saturn ?bot)))"
    by (simp_all add: example_defs)
  have arb: "checkArbOpportunity ?bot = []"
    unfolding checkArbOpportunity_def Let_def buy_heavy_spread by simp
  have own: "fetchOrdersFor ?bot = \<lparr>buys = [], sells = []\<rparr>"
    by (simp add: fetchOrdersFor_def example_defs)
  have clean: "cleanupOrders ?bot = []"
    unfolding cleanupOrders_unfold cancel_keys_def own by simp
  have "\<not> lte (spread_market ?bot) (MarketMakerConfig.spread (config ?bot))"
    unfolding buy_heavy_spread by (simp add: example_defs)
  then have new: "newOrders ?bot = [NewOrder ''ETH'' buy (Fin 9) (Fin (11 / 10))]"
    by (simp add: newOrders_def buy_heavy_newBuys buy_heavy_newSells)
  from getActions_priority [OF l example_plottable(1)]
  have "getActions ?bot = Inr [NewOrder ''ETH'' buy (Fin 9) (Fin (11 / 10))]"
    unfolding arb clean new by auto
  with l arb clean example_plottable(1) [of 100 "1 / 2"] show ?thesis by simp
qed

end
